theory Spec2Isabelle
  imports Main "HOL-Library.Word"
begin

section \<open>The B+ tree of b+tree.c: data model\<close>

text \<open>
  Keys, values and block pointers all live in the same 64-bit words of a block
  (\<^verbatim>\<open>union word\<close>), so all three are 64-bit machine words here. The null pointer
  is the word 0.
\<close>

type_synonym lkey_t = "64 word"
type_synonym value_t = "64 word"
type_synonym blkp = "64 word"

datatype bplus_error = OK | NOTFOUND | NOMEM

text \<open>
  C has no exceptions: a read or write through a null pointer or through a pointer to a
  block that was unmapped is undefined behaviour. The model makes it a value, the
  left summand of every result.
\<close>

datatype fault = NullDeref | BadPointer

definition fault_of :: "blkp \<Rightarrow> fault" where
  "fault_of p = (if p = 0 then NullDeref else BadPointer)"

text \<open>
  \<^verbatim>\<open>struct block { union word words[512]; }\<close>. Word 0 is the header, whose only
  member is the \<^verbatim>\<open>unsigned char num_keys\<close>; it is kept as a field of its own
  (\<open>hdr\<close>, 8 bits), the words 1..511 are \<open>words\<close>.
\<close>

record block =
  hdr :: "8 word"
  words :: "nat \<Rightarrow> 64 word"

abbreviation (input) ORDER :: nat where "ORDER \<equiv> 256"
abbreviation (input) LHALF :: nat where "LHALF \<equiv> 128"
abbreviation (input) RHALF :: nat where "RHALF \<equiv> 128"
abbreviation (input) KEY_0 :: nat where "KEY_0 \<equiv> 1"
abbreviation (input) FIELD_0 :: nat where "FIELD_0 \<equiv> 256"
abbreviation (input) NEXT :: nat where "NEXT \<equiv> 511"

text \<open>\<^verbatim>\<open>struct path_node\<close>, one frame of the descent.\<close>

record path_node =
  p_node :: blkp
  p_num_keys :: nat
  p_pos :: nat
  p_split :: blkp

text \<open>
  \<^verbatim>\<open>struct bplus_cursor\<close>. \<open>c_tree\<close> is true while the back-reference to the tree
  is non-null. The \<^verbatim>\<open>next\<close> thread of the registry is the order of \<open>cursor_list\<close>
  below.
\<close>

record bplus_cursor =
  c_tree :: bool
  c_leaf :: blkp
  c_pos :: nat
  c_invalid :: nat

text \<open>
  \<^verbatim>\<open>struct bplus\<close>, together with the memory it works on: \<open>blocks\<close> is the page
  store (the mapped node blocks by address), \<open>cursors\<close> the allocated cursor objects
  by address, \<open>path\<close> the scratch path array (\<open>None\<close> is the null pointer).
  The allocators are scripted: \<open>pages\<close> lists the pointers the next calls of
  \<^verbatim>\<open>mmap\<close> return (\<^verbatim>\<open>MAP_FAILED\<close>, or an exhausted script, is a refused
  mapping), \<open>mallocs\<close> the answers of \<^verbatim>\<open>malloc\<close> (\<open>None\<close> is a refusal,
  \<open>Some junk\<close> a fresh array or object whose uninitialised contents are \<open>junk\<close>),
  and \<open>next_cursor\<close> is the address the next cursor object gets.
\<close>

record bplus =
  root :: blkp
  leaves :: blkp
  depth :: nat
  cursor_list :: "nat list"
  num_recs :: nat
  num_blks :: nat
  num_crsrs :: nat
  path_length :: nat
  path :: "(nat \<Rightarrow> path_node) option"
  new_root :: blkp
  blocks :: "blkp \<Rightarrow> block option"
  cursors :: "nat \<Rightarrow> bplus_cursor option"
  pages :: "blkp list"
  mallocs :: "(nat \<Rightarrow> path_node) option list"
  next_cursor :: nat

text \<open>Unsigned arithmetic: \<^verbatim>\<open>unsigned\<close> is 32 bits wide, \<^verbatim>\<open>unsigned long\<close> 64.\<close>

definition u32 :: "nat \<Rightarrow> nat" where "u32 n = n mod 2 ^ 32"
definition u64 :: "nat \<Rightarrow> nat" where "u64 n = n mod 2 ^ 64"
definition sub32 :: "nat \<Rightarrow> nat \<Rightarrow> nat" where "sub32 a b = (a + 2 ^ 32 - b mod 2 ^ 32) mod 2 ^ 32"
definition sub64 :: "nat \<Rightarrow> nat \<Rightarrow> nat" where "sub64 a b = (a + 2 ^ 64 - b mod 2 ^ 64) mod 2 ^ 64"

section \<open>Block accessors\<close>

definition zero_block :: block where
  "zero_block = \<lparr>hdr = 0, words = (\<lambda>_. 0)\<rparr>"

definition num_keys :: "block \<Rightarrow> nat" where
  "num_keys b = unat (hdr b)"

definition get_key :: "block \<Rightarrow> nat \<Rightarrow> lkey_t" where
  "get_key b i = words b (KEY_0 + i)"

definition get_child :: "block \<Rightarrow> nat \<Rightarrow> blkp" where
  "get_child b i = words b (FIELD_0 + i)"

definition get_value :: "block \<Rightarrow> nat \<Rightarrow> value_t" where
  "get_value b i = words b (FIELD_0 + i)"

definition next_leaf :: "block \<Rightarrow> blkp" where
  "next_leaf b = words b NEXT"

text \<open>
  The block a valid pointer refers to. Every function below checks a pointer where the
  source first dereferences it and reports a fault otherwise; behind such a check
  \<open>blk\<close> is the block itself.
\<close>

definition blk :: "bplus \<Rightarrow> blkp \<Rightarrow> block" where
  "blk b p = (case blocks b p of Some x \<Rightarrow> x | None \<Rightarrow> zero_block)"

definition mapped :: "bplus \<Rightarrow> blkp \<Rightarrow> bool" where
  "mapped b p = (blocks b p \<noteq> None)"

text \<open>Stores through a block pointer: one word, the key count, and the two accessors.\<close>

definition wr :: "bplus \<Rightarrow> blkp \<Rightarrow> nat \<Rightarrow> 64 word \<Rightarrow> bplus" where
  "wr b p j v = b\<lparr>blocks := (blocks b)(p \<mapsto> (blk b p)\<lparr>words := (words (blk b p))(j := v)\<rparr>)\<rparr>"

definition set_num_keys :: "bplus \<Rightarrow> blkp \<Rightarrow> nat \<Rightarrow> bplus" where
  "set_num_keys b p n = b\<lparr>blocks := (blocks b)(p \<mapsto> (blk b p)\<lparr>hdr := of_nat n\<rparr>)\<rparr>"

definition set_value :: "bplus \<Rightarrow> blkp \<Rightarrow> nat \<Rightarrow> value_t \<Rightarrow> bplus" where
  "set_value b p i v = wr b p (FIELD_0 + i) v"

definition set_next_leaf :: "bplus \<Rightarrow> blkp \<Rightarrow> blkp \<Rightarrow> bplus" where
  "set_next_leaf b lf nxt = wr b lf NEXT nxt"

text \<open>
  \<^verbatim>\<open>wrdmove(d, s, nw)\<close> and \<^verbatim>\<open>wrdcpy(d, s, nw)\<close>: \<open>nw\<close> words from word
  \<open>so\<close> of block \<open>sp\<close> to word \<open>dof\<close> of block \<open>dp\<close>; \<^verbatim>\<open>memmove\<close> reads the
  whole source before it writes. \<^verbatim>\<open>wrdcpy\<close> is only called on two different blocks,
  where \<^verbatim>\<open>memcpy\<close> does the same.
\<close>

definition wrdmove :: "bplus \<Rightarrow> blkp \<Rightarrow> nat \<Rightarrow> blkp \<Rightarrow> nat \<Rightarrow> nat \<Rightarrow> bplus" where
  "wrdmove b dp dof sp so nw =
     b\<lparr>blocks := (blocks b)(dp \<mapsto> (blk b dp)\<lparr>words :=
        (\<lambda>j. if dof \<le> j \<and> j < dof + nw then words (blk b sp) (so + (j - dof))
             else words (blk b dp) j)\<rparr>)\<rparr>"

definition wrdcpy :: "bplus \<Rightarrow> blkp \<Rightarrow> nat \<Rightarrow> blkp \<Rightarrow> nat \<Rightarrow> nat \<Rightarrow> bplus" where
  "wrdcpy b dp dof sp so nw = wrdmove b dp dof sp so nw"

section \<open>Node store\<close>

text \<open>
  \<^verbatim>\<open>alloc_page_for_block\<close>, as compiled with \<^verbatim>\<open>USE_MMAP_ANON\<close>: the result of
  \<^verbatim>\<open>mmap\<close>, cast to a block pointer. A granted mapping is a fresh zero-filled page;
  a refused one is \<^verbatim>\<open>MAP_FAILED\<close>, which is \<^verbatim>\<open>(void *) -1\<close> and not the null
  pointer that the callers compare with. \<^verbatim>\<open>free_page_for_block\<close> unmaps the page.
  Neither touches the block counter.
\<close>

definition MAP_FAILED :: blkp where
  "MAP_FAILED = - 1"

definition map_page :: "bplus \<Rightarrow> blkp \<Rightarrow> bplus" where
  "map_page b p = b\<lparr>blocks := (blocks b)(p \<mapsto> zero_block)\<rparr>"

definition alloc_page_for_block :: "bplus \<Rightarrow> blkp \<times> bplus" where
  "alloc_page_for_block b =
     (case pages b of
        [] \<Rightarrow> (MAP_FAILED, b)
      | p # ps \<Rightarrow> (p, if p = MAP_FAILED then b\<lparr>pages := ps\<rparr> else map_page (b\<lparr>pages := ps\<rparr>) p))"

definition new_index_block :: "bplus \<Rightarrow> blkp \<times> bplus" where
  "new_index_block b = alloc_page_for_block b"

definition new_leaf_block :: "bplus \<Rightarrow> blkp \<times> bplus" where
  "new_leaf_block b = alloc_page_for_block b"

definition free_page_for_block :: "bplus \<Rightarrow> blkp \<Rightarrow> bplus" where
  "free_page_for_block b p = b\<lparr>blocks := (blocks b)(p := None)\<rparr>"

definition free_index_block :: "bplus \<Rightarrow> blkp \<Rightarrow> bplus" where
  "free_index_block b p = free_page_for_block b p"

definition free_leaf_block :: "bplus \<Rightarrow> blkp \<Rightarrow> bplus" where
  "free_leaf_block b p = free_page_for_block b p"

section \<open>Search layer\<close>

text \<open>
  \<^verbatim>\<open>for (i = 0; i < nk && k > get_key(b, i); i++);\<close> and its twin with \<^verbatim>\<open>>=\<close>.
\<close>

function scan_leaf_loop :: "block \<Rightarrow> lkey_t \<Rightarrow> nat \<Rightarrow> nat \<Rightarrow> nat" where
  "scan_leaf_loop b k nk i = (if i < nk \<and> k > get_key b i then scan_leaf_loop b k nk (i + 1) else i)"
  by pat_completeness auto
termination
  by (relation "measure (\<lambda>(b, k, nk, i). nk - i)") auto

declare scan_leaf_loop.simps [simp del]

definition scan_leaf_keys :: "block \<Rightarrow> lkey_t \<Rightarrow> nat" where
  "scan_leaf_keys b k = scan_leaf_loop b k (num_keys b) 0"

function scan_index_loop :: "block \<Rightarrow> lkey_t \<Rightarrow> nat \<Rightarrow> nat \<Rightarrow> nat" where
  "scan_index_loop b k nk i = (if i < nk \<and> k \<ge> get_key b i then scan_index_loop b k nk (i + 1) else i)"
  by pat_completeness auto
termination
  by (relation "measure (\<lambda>(b, k, nk, i). nk - i)") auto

declare scan_index_loop.simps [simp del]

definition scan_index_keys :: "block \<Rightarrow> lkey_t \<Rightarrow> nat" where
  "scan_index_keys b k = scan_index_loop b k (num_keys b) 0"

text \<open>
  The path array behind a non-null \<open>path\<close>; \<open>set_frame\<close> stores one frame. A null
  \<open>path\<close> is checked where \<^verbatim>\<open>find_leaf\<close> first writes through it.
\<close>

definition frames :: "bplus \<Rightarrow> nat \<Rightarrow> path_node" where
  "frames b = (case path b of Some f \<Rightarrow> f
               | None \<Rightarrow> (\<lambda>_. \<lparr>p_node = 0, p_num_keys = 0, p_pos = 0, p_split = 0\<rparr>))"

definition set_frame :: "bplus \<Rightarrow> nat \<Rightarrow> path_node \<Rightarrow> bplus" where
  "set_frame b d fr = b\<lparr>path := Some ((frames b)(d := fr))\<rparr>"

text \<open>
  \<^verbatim>\<open>path_reserved\<close>: the old array is freed and the length set before the result of
  \<^verbatim>\<open>malloc\<close> is known.
\<close>

definition path_reserved :: "bplus \<Rightarrow> bplus_error \<times> bplus" where
  "path_reserved b =
     (if path_length b < depth b then
        (case mallocs b of
           [] \<Rightarrow> (NOMEM, b\<lparr>path_length := depth b, path := None\<rparr>)
         | None # ms \<Rightarrow> (NOMEM, b\<lparr>path_length := depth b, path := None, mallocs := ms\<rparr>)
         | Some junk # ms \<Rightarrow> (OK, b\<lparr>path_length := depth b, path := Some junk, mallocs := ms\<rparr>))
      else (OK, b))"

text \<open>
  \<^verbatim>\<open>find_leaf\<close>: the loop over the index levels, from level \<open>d\<close> at \<open>node\<close>.
\<close>

function find_leaf_loop :: "bplus \<Rightarrow> lkey_t \<Rightarrow> nat \<Rightarrow> blkp \<Rightarrow> fault + (blkp \<times> bplus)" where
  "find_leaf_loop b k d nd =
     (if d < depth b then
        (if \<not> mapped b nd then Inl (fault_of nd)
         else if path b = None then Inl NullDeref
         else
           let i = scan_index_keys (blk b nd) k;
               b1 = set_frame b d ((frames b d)\<lparr>p_node := nd, p_pos := i,
                                     p_num_keys := num_keys (blk b nd)\<rparr>)
           in find_leaf_loop b1 k (d + 1) (get_child (blk b nd) i))
      else Inr (nd, b))"
  by pat_completeness auto
termination
  by (relation "measure (\<lambda>(b, k, d, nd). depth b - d)") (auto simp: set_frame_def)

declare find_leaf_loop.simps [simp del]

definition find_leaf :: "bplus \<Rightarrow> lkey_t \<Rightarrow> fault + (blkp \<times> bplus)" where
  "find_leaf b k = find_leaf_loop b k 0 (root b)"

text \<open>
  \<^verbatim>\<open>find\<close>. The result is the error code, the value written to \<^verbatim>\<open>*v\<close> (if any) and
  the state. The key at the scan index is compared without a look at the key count.
\<close>

definition find_bp :: "bplus \<Rightarrow> lkey_t \<Rightarrow> fault + (bplus_error \<times> value_t option \<times> bplus)" where
  "find_bp b k =
     (if root b \<noteq> 0 then
        (case path_reserved b of
           (ok, b1) \<Rightarrow>
             if ok \<noteq> OK then Inr (ok, None, b1)
             else
               (case find_leaf b1 k of
                  Inl e \<Rightarrow> Inl e
                | Inr (lf, b2) \<Rightarrow>
                    if \<not> mapped b2 lf then Inl (fault_of lf)
                    else
                      let i = scan_leaf_keys (blk b2 lf) k in
                        if k = get_key (blk b2 lf) i
                        then Inr (OK, Some (get_value (blk b2 lf) i), b2)
                        else Inr (NOTFOUND, None, b2)))
      else Inr (NOTFOUND, None, b))"

section \<open>Cursor registry sweeps\<close>

text \<open>
  \<^verbatim>\<open>for (bc = b->cursor_list; bc != NULL; bc = bc->next)\<close> with a body that updates
  the cursor \<open>bc\<close>: the body \<open>f\<close> is applied to every registered cursor in turn.
\<close>

definition sweep_cursors :: "(bplus_cursor \<Rightarrow> bplus_cursor) \<Rightarrow> bplus \<Rightarrow> bplus" where
  "sweep_cursors f b =
     b\<lparr>cursors := fold (\<lambda>c cs. case cs c of Some r \<Rightarrow> cs(c \<mapsto> f r) | None \<Rightarrow> cs)
                       (cursor_list b) (cursors b)\<rparr>"

section \<open>Insert\<close>

text \<open>\<^verbatim>\<open>insert_into_leaf\<close>; \<open>i \<le> nk\<close> at every call, so \<open>nk - i\<close> does not wrap.\<close>

definition insert_into_leaf :: "bplus \<Rightarrow> blkp \<Rightarrow> nat \<Rightarrow> lkey_t \<Rightarrow> value_t \<Rightarrow> bplus" where
  "insert_into_leaf b lf i key v =
     (let nk = num_keys (blk b lf);
          b1 = (if nk - i \<noteq> 0
                then wrdmove (wrdmove b lf (KEY_0 + i + 1) lf (KEY_0 + i) (nk - i))
                             lf (FIELD_0 + i + 1) lf (FIELD_0 + i) (nk - i)
                else b);
          b2 = wr b1 lf (KEY_0 + i) key;
          b3 = wr b2 lf (FIELD_0 + i) v;
          b4 = set_num_keys b3 lf (nk + 1)
      in sweep_cursors
           (\<lambda>bc. if c_leaf bc = lf \<and> c_pos bc \<ge> i then bc\<lparr>c_pos := u32 (c_pos bc + 1)\<rparr> else bc)
           b4)"

definition insert_split_into_index :: "bplus \<Rightarrow> blkp \<Rightarrow> nat \<Rightarrow> lkey_t \<Rightarrow> blkp \<Rightarrow> bplus" where
  "insert_split_into_index b nd i key child =
     (let nk = num_keys (blk b nd);
          b1 = (if nk - i \<noteq> 0
                then wrdmove (wrdmove b nd (KEY_0 + i + 1) nd (KEY_0 + i) (nk - i))
                             nd (FIELD_0 + i + 2) nd (FIELD_0 + i + 1) (nk - i)
                else b);
          b2 = wr b1 nd (KEY_0 + i) key;
          b3 = wr b2 nd (FIELD_0 + i + 1) child
      in set_num_keys b3 nd (nk + 1))"

text \<open>
  \<^verbatim>\<open>split_index\<close>, the \<^verbatim>\<open>CAREFUL\<close> version that is compiled. Both loops count
  \<open>i\<close> down (\<^verbatim>\<open>i-- > 0\<close>); \<open>j\<close> and \<open>dnode\<close> are the target position and block.
  \<^verbatim>\<open>if (j-- == 0) { dnode = parent; j = LHALF; }\<close> is \<open>step_target\<close>.
\<close>

definition step_target :: "blkp \<Rightarrow> nat \<times> blkp \<Rightarrow> nat \<times> blkp" where
  "step_target parent t = (case t of (j, dnode) \<Rightarrow> if j = 0 then (LHALF, parent) else (j - 1, dnode))"

function split_children :: "blkp \<Rightarrow> nat \<Rightarrow> blkp \<Rightarrow> nat \<Rightarrow> (nat \<times> blkp) \<Rightarrow> bplus \<Rightarrow> bplus" where
  "split_children parent pos new i t b =
     (if i > 0 then
        (let i1 = i - 1 in
           if i1 < pos \<and> i1 < LHALF + 1 then b
           else
             let b1 = wr b (snd t) (FIELD_0 + fst t) (words (blk b parent) (FIELD_0 + i1));
                 t1 = step_target parent t
             in if i1 = pos + 1
                then split_children parent pos new i1 (step_target parent t1)
                       (wr b1 (snd t1) (FIELD_0 + fst t1) new)
                else split_children parent pos new i1 t1 b1)
      else b)"
  by pat_completeness auto
termination
  by (relation "measure (\<lambda>(parent, pos, new, i, t, b). i)") auto

declare split_children.simps [simp del]

function split_keys :: "blkp \<Rightarrow> nat \<Rightarrow> lkey_t \<Rightarrow> nat \<Rightarrow> (nat \<times> blkp) \<Rightarrow> bplus \<Rightarrow> bplus" where
  "split_keys parent pos k i t b =
     (if i > 0 then
        (let i1 = i - 1 in
           if i1 < pos \<and> i1 < LHALF then b
           else
             let b1 = wr b (snd t) (KEY_0 + fst t) (words (blk b parent) (KEY_0 + i1));
                 t1 = step_target parent t
             in if i1 = pos
                then split_keys parent pos k i1 (step_target parent t1)
                       (wr b1 (snd t1) (KEY_0 + fst t1) k)
                else split_keys parent pos k i1 t1 b1)
      else b)"
  by pat_completeness auto
termination
  by (relation "measure (\<lambda>(parent, pos, k, i, t, b). i)") auto

declare split_keys.simps [simp del]

text \<open>The result of \<^verbatim>\<open>split_index\<close>: the new block, the promoted key (\<^verbatim>\<open>*k\<close>), the state.\<close>

definition split_index :: "bplus \<Rightarrow> blkp \<Rightarrow> blkp \<Rightarrow> nat \<Rightarrow> lkey_t \<Rightarrow> blkp \<Rightarrow> blkp \<times> lkey_t \<times> bplus" where
  "split_index b parent newp pos k new =
     (let b1 = set_num_keys b parent LHALF;
          b2 = set_num_keys b1 newp (RHALF - 1);
          b3 = (if pos = ORDER - 1 then wr b2 newp (FIELD_0 + RHALF - 1) new else b2);
          b4 = split_children parent pos new ORDER
                 (if pos = ORDER - 1 then RHALF - 1 - 1 else RHALF - 1, newp) b3;
          b5 = (if pos = ORDER - 1 then wr b4 newp (KEY_0 + RHALF - 2) k else b4);
          b6 = split_keys parent pos k (ORDER - 1)
                 (if pos = ORDER - 1 then RHALF - 2 - 1 else RHALF - 2, newp) b5
      in (newp, words (blk b6 parent) (KEY_0 + LHALF), b6))"

text \<open>
  \<^verbatim>\<open>split_leaf\<close>. The cursor sweep at its end changes positions only: a cursor of the
  split leaf keeps its leaf pointer.
\<close>

definition split_leaf :: "bplus \<Rightarrow> blkp \<Rightarrow> blkp \<Rightarrow> nat \<Rightarrow> lkey_t \<Rightarrow> value_t \<Rightarrow> blkp \<times> lkey_t \<times> bplus" where
  "split_leaf b lf new i k v =
     (let b1 = set_num_keys b lf LHALF;
          b2 = set_num_keys b1 new RHALF;
          b3 = set_next_leaf b2 new (next_leaf (blk b2 lf));
          b4 = set_next_leaf b3 lf new;
          b5 = (if i < LHALF then
                  (let c1 = wrdcpy b4 new KEY_0 lf (KEY_0 + LHALF - 1) RHALF;
                       c2 = wrdcpy c1 new FIELD_0 lf (FIELD_0 + LHALF - 1) RHALF;
                       c3 = (if LHALF - 1 - i \<noteq> 0
                             then wrdmove (wrdmove c2 lf (KEY_0 + i + 1) lf (KEY_0 + i) (LHALF - 1 - i))
                                          lf (FIELD_0 + i + 1) lf (FIELD_0 + i) (LHALF - 1 - i)
                             else c2);
                       c4 = wr c3 lf (KEY_0 + i) k
                   in wr c4 lf (FIELD_0 + i) v)
                else
                  (let c1 = (if i > LHALF
                             then wrdcpy (wrdcpy b4 new KEY_0 lf (KEY_0 + LHALF) (i - LHALF))
                                         new FIELD_0 lf (FIELD_0 + LHALF) (i - LHALF)
                             else b4);
                       c2 = wr c1 new (KEY_0 + i - LHALF) k;
                       c3 = wr c2 new (FIELD_0 + i - LHALF) v
                   in if ORDER - 1 - i \<noteq> 0
                      then wrdcpy (wrdcpy c3 new (KEY_0 + i + 1 - LHALF) lf (KEY_0 + i) (ORDER - 1 - i))
                                  new (FIELD_0 + i + 1 - LHALF) lf (FIELD_0 + i) (ORDER - 1 - i)
                      else c3));
          b6 = sweep_cursors
                 (\<lambda>bc. if c_leaf bc = lf then
                          (let bc1 = (if c_pos bc \<ge> i then bc\<lparr>c_pos := u32 (c_pos bc + 1)\<rparr> else bc)
                           in if c_pos bc1 \<ge> LHALF then bc1\<lparr>c_pos := c_pos bc1 - LHALF\<rparr> else bc1)
                        else bc)
                 b5
      in (new, get_key (blk b5 new) 0, b6))"

definition add_root_block :: "bplus \<Rightarrow> blkp \<Rightarrow> lkey_t \<Rightarrow> blkp \<Rightarrow> fault + bplus" where
  "add_root_block b left_child k right_child =
     (let new = new_root b in
        if \<not> mapped b new then Inl (fault_of new)
        else
          let b1 = set_num_keys b new 1;
              b2 = wr b1 new KEY_0 k;
              b3 = wr b2 new FIELD_0 left_child;
              b4 = wr b3 new (FIELD_0 + 1) right_child
          in Inr (b4\<lparr>root := new, depth := u32 (depth b4 + 1)\<rparr>))"

text \<open>\<^verbatim>\<open>insert_new_leaf\<close>: the loop from level \<open>d\<close> upwards (\<^verbatim>\<open>--d\<close> first).\<close>

function insert_new_leaf_loop :: "bplus \<Rightarrow> blkp \<Rightarrow> lkey_t \<Rightarrow> nat \<Rightarrow> fault + bplus" where
  "insert_new_leaf_loop b new k d =
     (if d \<noteq> 0 then
        (let d1 = d - 1;
             parent = p_node (frames b d1);
             i = p_pos (frames b d1)
         in if \<not> mapped b parent then Inl (fault_of parent)
            else if num_keys (blk b parent) < ORDER - 1
            then Inr (insert_split_into_index b parent i k new)
            else if \<not> mapped b (p_split (frames b d1)) then Inl (fault_of (p_split (frames b d1)))
            else
              (case split_index b parent (p_split (frames b d1)) i k new of
                 (new1, k1, b1) \<Rightarrow> insert_new_leaf_loop b1 new1 k1 d1))
      else add_root_block b (root b) k new)"
  by pat_completeness auto
termination
  by (relation "measure (\<lambda>(b, new, k, d). d)") auto

declare insert_new_leaf_loop.simps [simp del]

definition insert_new_leaf :: "bplus \<Rightarrow> blkp \<Rightarrow> lkey_t \<Rightarrow> fault + bplus" where
  "insert_new_leaf b new k = insert_new_leaf_loop b new k (depth b)"

text \<open>\<^verbatim>\<open>free_preallocated_splits\<close>.\<close>

function free_splits_loop :: "bplus \<Rightarrow> nat \<Rightarrow> bplus" where
  "free_splits_loop b d =
     (if d < depth b then free_splits_loop (free_index_block b (p_split (frames b d))) (d + 1)
      else b)"
  by pat_completeness auto
termination
  by (relation "measure (\<lambda>(b, d). depth b - d)")
     (auto simp: free_index_block_def free_page_for_block_def)

declare free_splits_loop.simps [simp del]

definition free_preallocated_splits :: "bplus \<Rightarrow> nat \<Rightarrow> bplus" where
  "free_preallocated_splits b d =
     free_splits_loop
       (if d = 0 \<and> new_root b \<noteq> 0 then free_index_block b (new_root b) else b) d"

text \<open>
  \<^verbatim>\<open>preallocate_splits\<close>. Its first loop,
  \<^verbatim>\<open>for (d = b->depth; d != 0 && b->path[--d].num_keys == ORDER - 1;)\<close>, returns whether an
  allocation was refused, the final \<open>d\<close>, \<open>n_allocs\<close> and the state.
\<close>

definition set_split :: "bplus \<Rightarrow> nat \<Rightarrow> blkp \<Rightarrow> bplus" where
  "set_split b d p = set_frame b d ((frames b d)\<lparr>p_split := p\<rparr>)"

function prealloc_loop :: "bplus \<Rightarrow> nat \<Rightarrow> nat \<Rightarrow> bool \<times> nat \<times> nat \<times> bplus" where
  "prealloc_loop b d n =
     (if d \<noteq> 0 then
        (let d1 = d - 1 in
           if p_num_keys (frames b d1) = ORDER - 1 then
             (case new_index_block b of
                (p, b1) \<Rightarrow>
                  let b2 = set_split b1 d1 p in
                    if p = 0 then (True, d1, n, free_preallocated_splits b2 (d1 + 1))
                    else prealloc_loop b2 d1 (n + 1))
           else (False, d1, n, b))
      else (False, d, n, b))"
  by pat_completeness auto
termination
  by (relation "measure (\<lambda>(b, d, n). d)") auto

declare prealloc_loop.simps [simp del]

definition preallocate_splits :: "bplus \<Rightarrow> blkp \<times> bplus" where
  "preallocate_splits b =
     (case prealloc_loop (b\<lparr>new_root := 0\<rparr>) (depth b) 0 of
        (refused, d, n, b1) \<Rightarrow>
          if refused then (0, b1)
          else if depth b1 = 0 \<or> (d = 0 \<and> p_num_keys (frames b1 d) = ORDER - 1) then
            (case (if depth b1 \<noteq> 0 then
                     (case new_index_block b1 of (p, c1) \<Rightarrow> (p = 0, n + 1, set_split c1 d p))
                   else (False, n, b1)) of
               (refused2, n2, b2) \<Rightarrow>
                 if refused2 then (0, free_preallocated_splits b2 (d + 1))
                 else
                   (case new_index_block b2 of
                      (r, c2) \<Rightarrow>
                        let b3 = c2\<lparr>new_root := r\<rparr> in
                          if r = 0 then (0, free_preallocated_splits b3 d)
                          else
                            (case new_leaf_block b3 of
                               (sl, b4) \<Rightarrow>
                                 if sl = 0 then (sl, free_preallocated_splits b4 d)
                                 else (sl, b4\<lparr>num_blks := u64 (num_blks b4 + (n2 + 1 + 1))\<rparr>))))
          else
            (case new_leaf_block b1 of
               (sl, b4) \<Rightarrow>
                 if sl = 0 then (sl, free_preallocated_splits b4 d)
                 else (sl, b4\<lparr>num_blks := u64 (num_blks b4 + (n + 1))\<rparr>)))"

text \<open>\<^verbatim>\<open>insert\<close>.\<close>

definition insert_bp :: "bplus \<Rightarrow> lkey_t \<Rightarrow> value_t \<Rightarrow> fault + (bplus_error \<times> bplus)" where
  "insert_bp b k v =
     (case path_reserved b of
        (ok, b1) \<Rightarrow>
          if ok = OK then
            (case find_leaf b1 k of
               Inl e \<Rightarrow> Inl e
             | Inr (lf, b2) \<Rightarrow>
                 if \<not> mapped b2 lf then Inl (fault_of lf)
                 else
                   let nk = num_keys (blk b2 lf);
                       i = scan_leaf_keys (blk b2 lf) k
                   in if i < nk \<and> get_key (blk b2 lf) i = k then Inr (OK, set_value b2 lf i v)
                      else if nk < ORDER - 1 then
                        (let b3 = insert_into_leaf b2 lf i k v
                         in Inr (OK, b3\<lparr>num_recs := u64 (num_recs b3 + 1)\<rparr>))
                      else
                        (case preallocate_splits b2 of
                           (split, b3) \<Rightarrow>
                             if split = 0 then Inr (NOMEM, b3)
                             else
                               (case split_leaf b3 lf split i k v of
                                  (new, k1, b4) \<Rightarrow>
                                    (case insert_new_leaf b4 new k1 of
                                       Inl e \<Rightarrow> Inl e
                                     | Inr b5 \<Rightarrow> Inr (OK, b5\<lparr>num_recs := u64 (num_recs b5 + 1)\<rparr>)))))
          else Inr (ok, b1))"

section \<open>Delete\<close>

text \<open>The three cursor fix-ups of the underflow protocol.\<close>

definition fix_cursor_rotate_left :: "bplus \<Rightarrow> blkp \<Rightarrow> blkp \<Rightarrow> bplus" where
  "fix_cursor_rotate_left b lf rpeer =
     sweep_cursors
       (\<lambda>bc. if c_leaf bc = rpeer then
                (if c_pos bc = 0 then bc\<lparr>c_leaf := lf, c_pos := sub32 (num_keys (blk b lf)) 1\<rparr>
                 else bc\<lparr>c_pos := c_pos bc - 1\<rparr>)
              else bc)
       b"

definition fix_cursor_rotate_right :: "bplus \<Rightarrow> blkp \<Rightarrow> blkp \<Rightarrow> bplus" where
  "fix_cursor_rotate_right b lpeer lf =
     sweep_cursors
       (\<lambda>bc. if c_leaf bc = lf then bc\<lparr>c_pos := u32 (c_pos bc + 1)\<rparr>
              else if c_leaf bc = lpeer \<and> c_pos bc = num_keys (blk b lpeer)
              then bc\<lparr>c_leaf := lf, c_pos := 0\<rparr>
              else bc)
       b"

definition fix_cursor_merge :: "bplus \<Rightarrow> blkp \<Rightarrow> blkp \<Rightarrow> nat \<Rightarrow> bplus" where
  "fix_cursor_merge b lf peer nkl =
     sweep_cursors
       (\<lambda>bc. if c_leaf bc = peer then bc\<lparr>c_leaf := lf, c_pos := u32 (c_pos bc + nkl)\<rparr> else bc)
       b"

text \<open>\<^verbatim>\<open>l->words[HEADER].header.num_keys += n\<close>, on the 8-bit count.\<close>

definition add_num_keys :: "bplus \<Rightarrow> blkp \<Rightarrow> nat \<Rightarrow> bplus" where
  "add_num_keys b p n = set_num_keys b p (num_keys (blk b p) + n)"

definition dec_num_keys :: "bplus \<Rightarrow> blkp \<Rightarrow> bplus" where
  "dec_num_keys b p = b\<lparr>blocks := (blocks b)(p \<mapsto> (blk b p)\<lparr>hdr := hdr (blk b p) - 1\<rparr>)\<rparr>"

definition merge_index_nodes :: "bplus \<Rightarrow> blkp \<Rightarrow> blkp \<Rightarrow> lkey_t \<Rightarrow> fault + bplus" where
  "merge_index_nodes b l r s =
     (if \<not> mapped b l then Inl (fault_of l)
      else if \<not> mapped b r then Inl (fault_of r)
      else
        let nkl = num_keys (blk b l);
            nkr = num_keys (blk b r);
            b1 = wr b l (KEY_0 + nkl) s;
            b2 = wrdmove b1 l (KEY_0 + nkl + 1) r KEY_0 nkr;
            b3 = wrdmove b2 l (FIELD_0 + nkl + 1) r FIELD_0 (nkr + 1);
            b4 = add_num_keys b3 l (nkr + 1);
            b5 = free_index_block b4 r
        in Inr (b5\<lparr>num_blks := sub64 (num_blks b5) 1\<rparr>))"

text \<open>
  \<^verbatim>\<open>index_underflow\<close>: the result is whether the node was merged (\<^verbatim>\<open>return 1\<close>),
  the position written to \<^verbatim>\<open>*posp\<close> (the old one after a rotation) and the state.
\<close>

definition index_underflow :: "bplus \<Rightarrow> nat \<Rightarrow> blkp \<Rightarrow> nat \<Rightarrow> fault + (bool \<times> nat \<times> bplus)" where
  "index_underflow b d inode posp =
     (let parent = p_node (frames b d);
          pos = p_pos (frames b d);
          nkp = p_num_keys (frames b d)
      in if \<not> mapped b inode then Inl (fault_of inode)
         else
           let nki = num_keys (blk b inode) in
             if pos < nkp \<and> \<not> mapped b parent then Inl (fault_of parent)
             else
               let rpeer = (if pos < nkp then words (blk b parent) (FIELD_0 + pos + 1) else 0) in
                 if pos < nkp \<and> \<not> mapped b rpeer then Inl (fault_of rpeer)
                 else if pos < nkp \<and> nki + num_keys (blk b rpeer) > ORDER - 2 then
                   (let nkr = num_keys (blk b rpeer);
                        b1 = wr b inode (KEY_0 + nki) (words (blk b parent) (KEY_0 + pos));
                        b2 = wr b1 parent (KEY_0 + pos) (words (blk b1 rpeer) KEY_0);
                        b3 = wr b2 inode (FIELD_0 + nki + 1) (words (blk b2 rpeer) FIELD_0);
                        b4 = wrdmove b3 rpeer KEY_0 rpeer (KEY_0 + 1) (nkr - 1);
                        b5 = wrdmove b4 rpeer FIELD_0 rpeer (FIELD_0 + 1) nkr;
                        b6 = add_num_keys b5 inode 1
                    in Inr (False, posp, dec_num_keys b6 rpeer))
                 else if pos > 0 then
                   (if \<not> mapped b parent then Inl (fault_of parent)
                    else
                      let lpeer = words (blk b parent) (FIELD_0 + pos - 1) in
                        if \<not> mapped b lpeer then Inl (fault_of lpeer)
                        else
                          let nkl = num_keys (blk b lpeer) in
                            if nkl + nki > ORDER - 2 then
                              (let b1 = wrdmove b inode (KEY_0 + 1) inode KEY_0 nki;
                                   b2 = wrdmove b1 inode (FIELD_0 + 1) inode FIELD_0 (nki + 1);
                                   b3 = wr b2 inode KEY_0 (words (blk b2 parent) (KEY_0 + pos - 1));
                                   b4 = wr b3 parent (KEY_0 + pos - 1) (words (blk b3 lpeer) (KEY_0 + nkl - 1));
                                   b5 = wr b4 inode FIELD_0 (words (blk b4 lpeer) (FIELD_0 + nkl));
                                   b6 = add_num_keys b5 inode 1
                               in Inr (False, posp, dec_num_keys b6 lpeer))
                            else
                              (case merge_index_nodes b lpeer inode (words (blk b parent) (KEY_0 + pos - 1)) of
                                 Inl e \<Rightarrow> Inl e
                               | Inr b1 \<Rightarrow> Inr (True, pos, b1)))
                 else if \<not> mapped b parent then Inl (fault_of parent)
                 else
                   (case merge_index_nodes b inode rpeer (words (blk b parent) (KEY_0 + pos)) of
                      Inl e \<Rightarrow> Inl e
                    | Inr b1 \<Rightarrow> Inr (True, pos + 1, b1)))"

text \<open>
  \<^verbatim>\<open>shrink_index_ancestors\<close>; \<open>1 \<le> pos \<le> nk\<close> at every call, so neither
  \<open>nk - pos\<close> nor \<open>pos - 1\<close> wraps.
\<close>

function shrink_index_ancestors :: "bplus \<Rightarrow> nat \<Rightarrow> nat \<Rightarrow> fault + bplus" where
  "shrink_index_ancestors b d pos =
     (let inode = p_node (frames b d);
          nk0 = p_num_keys (frames b d)
      in if \<not> mapped b inode then Inl (fault_of inode)
         else
           let b1 = (if nk0 - pos > 0
                     then wrdmove (wrdmove b inode (KEY_0 + pos - 1) inode (KEY_0 + pos) (nk0 - pos))
                                  inode (FIELD_0 + pos) inode (FIELD_0 + pos + 1) (nk0 - pos)
                     else b);
               nk = sub32 nk0 1;
               b2 = set_num_keys b1 inode nk
           in if d = 0 then
                (if nk = 0 then
                   (let b3 = b2\<lparr>root := words (blk b2 inode) FIELD_0, depth := sub32 (depth b2) 1\<rparr>;
                        b4 = free_index_block b3 inode;
                        b5 = b4\<lparr>num_blks := sub64 (num_blks b4) 1\<rparr>
                    in if depth b5 = 0 then Inr (b5\<lparr>path_length := 0, path := None\<rparr>)
                       else Inr b5)
                 else Inr b2)
              else if nk < LHALF then
                (case index_underflow b2 (d - 1) inode pos of
                   Inl e \<Rightarrow> Inl e
                 | Inr (merged, pos1, b3) \<Rightarrow>
                     if merged then shrink_index_ancestors b3 (d - 1) pos1 else Inr b3)
              else Inr b2)"
  by pat_completeness auto
termination
  by (relation "measure (\<lambda>(b, d, pos). d)") auto

declare shrink_index_ancestors.simps [simp del]

definition merge_leaf_nodes :: "bplus \<Rightarrow> blkp \<Rightarrow> blkp \<Rightarrow> fault + bplus" where
  "merge_leaf_nodes b l r =
     (if \<not> mapped b l then Inl (fault_of l)
      else if \<not> mapped b r then Inl (fault_of r)
      else
        let nkl = num_keys (blk b l);
            nkr = num_keys (blk b r);
            b1 = wrdmove b l (KEY_0 + nkl) r KEY_0 nkr;
            b2 = wrdmove b1 l (FIELD_0 + nkl) r FIELD_0 nkr;
            b3 = add_num_keys b2 l nkr;
            b4 = wr b3 l NEXT (words (blk b3 r) NEXT);
            b5 = fix_cursor_merge b4 l r nkl;
            b6 = free_leaf_block b5 r
        in Inr (b6\<lparr>num_blks := sub64 (num_blks b6) 1\<rparr>))"

definition leaf_underflow :: "bplus \<Rightarrow> blkp \<Rightarrow> fault + bplus" where
  "leaf_underflow b lf =
     (let d = sub32 (depth b) 1;
          parent = p_node (frames b d);
          pos = p_pos (frames b d);
          nk = p_num_keys (frames b d)
      in if pos < nk \<and> \<not> mapped b parent then Inl (fault_of parent)
         else
           let rpeer = (if pos < nk then words (blk b parent) (FIELD_0 + pos + 1) else 0) in
             if pos < nk \<and> \<not> mapped b rpeer then Inl (fault_of rpeer)
             else if pos < nk \<and> num_keys (blk b rpeer) > LHALF then
               (let b1 = wr b lf (KEY_0 + LHALF - 1) (words (blk b rpeer) KEY_0);
                    b2 = wr b1 lf (FIELD_0 + LHALF - 1) (words (blk b1 rpeer) FIELD_0);
                    b3 = wrdmove b2 rpeer KEY_0 rpeer (KEY_0 + 1) (num_keys (blk b2 rpeer) - 1);
                    b4 = wrdmove b3 rpeer FIELD_0 rpeer (FIELD_0 + 1) (num_keys (blk b3 rpeer) - 1);
                    b5 = add_num_keys b4 lf 1;
                    b6 = dec_num_keys b5 rpeer;
                    b7 = wr b6 parent (KEY_0 + pos) (words (blk b6 rpeer) KEY_0)
                in Inr (fix_cursor_rotate_left b7 lf rpeer))
             else if pos > 0 then
               (if \<not> mapped b parent then Inl (fault_of parent)
                else
                  let lpeer = words (blk b parent) (FIELD_0 + pos - 1) in
                    if \<not> mapped b lpeer then Inl (fault_of lpeer)
                    else if num_keys (blk b lpeer) > LHALF then
                      (let b1 = wrdmove b lf (KEY_0 + 1) lf KEY_0 (num_keys (blk b lf));
                           b2 = wrdmove b1 lf (FIELD_0 + 1) lf FIELD_0 (num_keys (blk b1 lf));
                           b3 = wr b2 lf KEY_0 (words (blk b2 lpeer) (KEY_0 + num_keys (blk b2 lpeer) - 1));
                           b4 = wr b3 lf FIELD_0 (words (blk b3 lpeer) (FIELD_0 + num_keys (blk b3 lpeer) - 1));
                           b5 = add_num_keys b4 lf 1;
                           b6 = dec_num_keys b5 lpeer;
                           b7 = wr b6 parent (KEY_0 + pos - 1) (words (blk b6 lf) KEY_0)
                       in Inr (fix_cursor_rotate_right b7 lpeer lf))
                    else
                      (case merge_leaf_nodes b lpeer lf of
                         Inl e \<Rightarrow> Inl e
                       | Inr b1 \<Rightarrow> shrink_index_ancestors b1 (sub32 (depth b1) 1) pos))
             else
               (case merge_leaf_nodes b lf rpeer of
                  Inl e \<Rightarrow> Inl e
                | Inr b1 \<Rightarrow> shrink_index_ancestors b1 (sub32 (depth b1) 1) (pos + 1)))"

text \<open>\<^verbatim>\<open>delete\<close>; \<open>i < nk\<close> where the record is removed, so \<open>nk - i - 1\<close> does not wrap.\<close>

definition delete_bp :: "bplus \<Rightarrow> lkey_t \<Rightarrow> fault + (bplus_error \<times> bplus)" where
  "delete_bp b k =
     (case path_reserved b of
        (ok, b1) \<Rightarrow>
          if ok = OK then
            (case find_leaf b1 k of
               Inl e \<Rightarrow> Inl e
             | Inr (lf, b2) \<Rightarrow>
                 if \<not> mapped b2 lf then Inl (fault_of lf)
                 else
                   let nk = num_keys (blk b2 lf);
                       i = scan_leaf_keys (blk b2 lf) k
                   in if i < nk \<and> get_key (blk b2 lf) i = k then
                        (let sfx_count = nk - i - 1;
                             b3 = (if sfx_count \<noteq> 0
                                   then wrdmove (wrdmove b2 lf (KEY_0 + i) lf (KEY_0 + i + 1) sfx_count)
                                                lf (FIELD_0 + i) lf (FIELD_0 + i + 1) sfx_count
                                   else b2);
                             b4 = set_num_keys b3 lf (nk - 1);
                             b5 = b4\<lparr>num_recs := sub64 (num_recs b4) 1\<rparr>;
                             b6 = sweep_cursors
                                    (\<lambda>bc. if c_leaf bc = lf then
                                             (if c_pos bc = i then bc\<lparr>c_invalid := 1\<rparr>
                                              else if c_pos bc > i then bc\<lparr>c_pos := c_pos bc - 1\<rparr>
                                              else bc)
                                           else bc)
                                    b5
                         in if depth b6 > 0 \<and> nk \<le> LHALF then
                              (case leaf_underflow b6 lf of
                                 Inl e \<Rightarrow> Inl e
                               | Inr b7 \<Rightarrow> Inr (OK, b7))
                            else Inr (OK, b6))
                      else Inr (NOTFOUND, b2))
          else Inr (ok, b1))"

section \<open>Cursors and the life of a tree\<close>

text \<open>
  \<^verbatim>\<open>make_bplus_cursor\<close>: the new cursor is pushed onto the head of the registry. The
  result is the cursor's address, or \<open>None\<close> for the null pointer.
\<close>

definition make_bplus_cursor :: "bplus \<Rightarrow> blkp \<Rightarrow> nat \<Rightarrow> nat option \<times> bplus" where
  "make_bplus_cursor b lf pos =
     (case mallocs b of
        [] \<Rightarrow> (None, b)
      | None # ms \<Rightarrow> (None, b\<lparr>mallocs := ms\<rparr>)
      | Some junk # ms \<Rightarrow>
          (let c = next_cursor b in
             (Some c,
              b\<lparr>mallocs := ms, next_cursor := c + 1,
                num_crsrs := u64 (num_crsrs b + 1),
                cursors := (cursors b)(c \<mapsto> \<lparr>c_tree = True, c_leaf = lf, c_pos = pos, c_invalid = 0\<rparr>),
                cursor_list := c # cursor_list b\<rparr>)))"

text \<open>
  \<^verbatim>\<open>new_bplus_tree\<close>, from the two allocator scripts: \<open>None\<close> is the null handle.
  The root pointer is compared with the null pointer only, so the key count of the root
  is written through \<^verbatim>\<open>MAP_FAILED\<close> when the mapping was refused.
\<close>

definition new_bplus_tree :: "blkp list \<Rightarrow> (nat \<Rightarrow> path_node) option list \<Rightarrow> fault + bplus option" where
  "new_bplus_tree ps ms =
     (case ms of
        [] \<Rightarrow> Inr None
      | None # ms1 \<Rightarrow> Inr None
      | Some junk # ms1 \<Rightarrow>
          (let p = (case ps of [] \<Rightarrow> MAP_FAILED | p # ps1 \<Rightarrow> p) in
             if p = 0 then Inr None
             else if p = MAP_FAILED then Inl (fault_of p)
             else Inr (Some \<lparr>root = p, leaves = p, depth = 0, cursor_list = [],
                          num_recs = 0, num_blks = 1, num_crsrs = 0,
                          path_length = 0, path = None, new_root = 0,
                          blocks = (\<lambda>_. None)(p \<mapsto> zero_block\<lparr>hdr := 0, words := (words zero_block)(NEXT := 0)\<rparr>),
                          cursors = (\<lambda>_. None), pages = tl ps, mallocs = ms1, next_cursor = 0\<rparr>)))"

text \<open>
  \<^verbatim>\<open>free_index_subtree(b, d, blk)\<close> with \<open>n = depth - d\<close> levels of index nodes still
  below; \<open>free_children\<close> is its loop over the children, which reads the key count and
  the child pointer from the block in every round.
\<close>

function free_index_subtree :: "nat \<Rightarrow> blkp \<Rightarrow> bplus \<Rightarrow> fault + bplus"
  and free_children :: "nat \<Rightarrow> blkp \<Rightarrow> nat \<Rightarrow> bplus \<Rightarrow> fault + bplus" where
  "free_index_subtree n p b =
     (if n > 0 then
        (case free_children (n - 1) p 0 b of
           Inl e \<Rightarrow> Inl e
         | Inr b1 \<Rightarrow> (let b2 = free_index_block b1 p in Inr (b2\<lparr>num_blks := sub64 (num_blks b2) 1\<rparr>)))
      else (let b2 = free_leaf_block b p in Inr (b2\<lparr>num_blks := sub64 (num_blks b2) 1\<rparr>)))"
| "free_children n p i b =
     (if \<not> mapped b p then Inl (fault_of p)
      else if i \<le> num_keys (blk b p) then
        (case free_index_subtree n (words (blk b p) (FIELD_0 + i)) b of
           Inl e \<Rightarrow> Inl e
         | Inr b1 \<Rightarrow> free_children n p (i + 1) b1)
      else Inr b)"
  by pat_completeness auto
termination
  by (relation "measures [\<lambda>x. case x of Inl (n, p, b) \<Rightarrow> 2 * n | Inr (n, p, i, b) \<Rightarrow> 2 * n + 1,
                          \<lambda>x. case x of Inl (n, p, b) \<Rightarrow> 0 | Inr (n, p, i, b) \<Rightarrow> 257 - i]")
     (auto simp: num_keys_def dest: order.strict_trans1 [OF _ unsigned_less [where ?'a = nat and ?'b = 8]])

declare free_index_subtree.simps [simp del]
declare free_children.simps [simp del]

text \<open>
  \<^verbatim>\<open>free_bplus_tree\<close>: every registered cursor loses its back-reference, the blocks
  and the path array are released. The handle itself is not freed.
\<close>

definition free_bplus_tree :: "bplus \<Rightarrow> fault + bplus" where
  "free_bplus_tree b =
     (let b1 = sweep_cursors (\<lambda>bc. bc\<lparr>c_tree := False\<rparr>) b in
        case free_index_subtree (depth b1) (root b1) b1 of
          Inl e \<Rightarrow> Inl e
        | Inr b2 \<Rightarrow> Inr (b2\<lparr>path := None\<rparr>))"

definition get_active_storage :: "bplus \<Rightarrow> nat \<times> nat \<times> nat" where
  "get_active_storage b = (num_recs b, num_blks b, num_crsrs b)"

definition first_record :: "bplus \<Rightarrow> nat option \<times> bplus" where
  "first_record b = make_bplus_cursor b (leaves b) 0"

definition find_record :: "bplus \<Rightarrow> lkey_t \<Rightarrow> fault + (nat option \<times> bplus)" where
  "find_record b k =
     (if root b \<noteq> 0 then
        (case path_reserved b of
           (ok, b1) \<Rightarrow>
             if ok = OK then
               (case find_leaf b1 k of
                  Inl e \<Rightarrow> Inl e
                | Inr (lf, b2) \<Rightarrow>
                    if \<not> mapped b2 lf then Inl (fault_of lf)
                    else Inr (make_bplus_cursor b2 lf (scan_leaf_keys (blk b2 lf) k)))
             else Inr (None, b1))
      else Inr (None, b))"

text \<open>
  The cursor operations take the cursor's address \<open>c\<close>. None of them looks at the
  cursor's back-reference before it reads through the leaf pointer.
\<close>

definition next_record :: "bplus \<Rightarrow> nat \<Rightarrow> fault + (bplus_error \<times> bplus)" where
  "next_record b c =
     (case cursors b c of
        None \<Rightarrow> Inl BadPointer
      | Some bc \<Rightarrow>
          let l = c_leaf bc;
              bc1 = (if c_invalid bc \<noteq> 0 then bc\<lparr>c_invalid := 0\<rparr> else bc\<lparr>c_pos := u32 (c_pos bc + 1)\<rparr>)
          in if \<not> mapped b l then Inl (fault_of l)
             else if num_keys (blk b l) \<le> c_pos bc1 then
               (let l1 = next_leaf (blk b l)
                in Inr (if l1 \<noteq> 0 then OK else NOTFOUND,
                        b\<lparr>cursors := (cursors b)(c \<mapsto> bc1\<lparr>c_leaf := l1, c_pos := 0\<rparr>)\<rparr>))
             else Inr (OK, b\<lparr>cursors := (cursors b)(c \<mapsto> bc1)\<rparr>))"

definition get_record :: "bplus \<Rightarrow> nat \<Rightarrow> fault + (bplus_error \<times> (lkey_t \<times> value_t) option)" where
  "get_record b c =
     (case cursors b c of
        None \<Rightarrow> Inl BadPointer
      | Some bc \<Rightarrow>
          let l = c_leaf bc; p = c_pos bc in
            if c_invalid bc = 0 \<and> l \<noteq> 0 then
              (if \<not> mapped b l then Inl (fault_of l)
               else if num_keys (blk b l) > p
               then Inr (OK, Some (get_key (blk b l) p, words (blk b l) (FIELD_0 + p)))
               else Inr (NOTFOUND, None))
            else Inr (NOTFOUND, None))"

definition update_record :: "bplus \<Rightarrow> nat \<Rightarrow> value_t \<Rightarrow> fault + (bplus_error \<times> bplus)" where
  "update_record b c v =
     (case cursors b c of
        None \<Rightarrow> Inl BadPointer
      | Some bc \<Rightarrow>
          let l = c_leaf bc; p = c_pos bc in
            if c_invalid bc = 0 \<and> l \<noteq> 0 then
              (if \<not> mapped b l then Inl (fault_of l)
               else if num_keys (blk b l) > p
               then Inr (OK, wr b l (FIELD_0 + p) v)
               else Inr (NOTFOUND, b))
            else Inr (NOTFOUND, b))"

text \<open>
  \<^verbatim>\<open>free_cursor\<close>: the counter of the tree is decremented through the back-reference
  that was read at the start, also when it was null.
\<close>

definition free_cursor :: "bplus \<Rightarrow> nat \<Rightarrow> fault + bplus" where
  "free_cursor b c =
     (case cursors b c of
        None \<Rightarrow> Inl BadPointer
      | Some bc \<Rightarrow>
          let b1 = (if c_tree bc then b\<lparr>cursor_list := remove1 c (cursor_list b)\<rparr> else b);
              b2 = b1\<lparr>cursors := (cursors b1)(c := None)\<rparr>
          in if c_tree bc then Inr (b2\<lparr>num_crsrs := sub64 (num_crsrs b2) 1\<rparr>)
             else Inl NullDeref)"

text \<open>\<^verbatim>\<open>get_tree\<close>: whether the tree pointer it returns is non-null.\<close>

definition get_tree :: "bplus \<Rightarrow> nat \<Rightarrow> fault + bool" where
  "get_tree b c = (case cursors b c of None \<Rightarrow> Inl BadPointer | Some bc \<Rightarrow> Inr (c_tree bc))"

section \<open>Concrete trees\<close>

text \<open>
  The states the theorems below run the code on. \<open>tree0\<close> is a new tree whose
  allocators grant three more pages and two more objects. \<open>full_leaf_tree\<close> is the
  tree after the keys 1 to 255 were inserted in ascending order, each with its key as
  value: one full root leaf; a cursor stands on the record with key 200, and the next
  \<^verbatim>\<open>malloc\<close> will be refused. \<open>split_tree\<close> is that tree after key 256 was
  inserted, which splits the root leaf and makes the depth 1. \<open>cursor_tree\<close> holds
  the one record (5, 7) and a cursor on it.
\<close>

definition no_frame :: "nat \<Rightarrow> path_node" where
  "no_frame = (\<lambda>_. \<lparr>p_node = 0, p_num_keys = 0, p_pos = 0, p_split = 0\<rparr>)"

definition tree0 :: bplus where
  "tree0 = (case new_bplus_tree [1, 2, 3] [Some no_frame, Some no_frame, Some no_frame] of
              Inr (Some b) \<Rightarrow> b | _ \<Rightarrow> undefined)"

definition full_leaf :: block where
  "full_leaf = \<lparr>hdr = 255,
                words = (\<lambda>j. if 1 \<le> j \<and> j \<le> 255 then of_nat j
                            else if 256 \<le> j \<and> j \<le> 510 then of_nat (j - 255) else 0)\<rparr>"

definition full_leaf_tree :: bplus where
  "full_leaf_tree =
     \<lparr>root = 1, leaves = 1, depth = 0, cursor_list = [0],
      num_recs = 255, num_blks = 1, num_crsrs = 1,
      path_length = 0, path = None, new_root = 0,
      blocks = (\<lambda>_. None)(1 \<mapsto> full_leaf),
      cursors = (\<lambda>_. None)(0 \<mapsto> \<lparr>c_tree = True, c_leaf = 1, c_pos = 199, c_invalid = 0\<rparr>),
      pages = [2, 3], mallocs = [None, Some no_frame], next_cursor = 1\<rparr>"

definition split_tree :: bplus where
  "split_tree = (case insert_bp full_leaf_tree 256 256 of Inr (e, b) \<Rightarrow> b | Inl f \<Rightarrow> full_leaf_tree)"

definition cursor_tree :: bplus where
  "cursor_tree = (case insert_bp tree0 5 7 of Inr (e, b1) \<Rightarrow> snd (first_record b1) | Inl f \<Rightarrow> tree0)"


section \<open>Vocabulary for the split of an index node\<close>

text \<open>
  \<^verbatim>\<open>split_index\<close> distributes the 255 keys and 256 children of a full node, together
  with the key and child that come up from below, over the node and its new sibling.
  \<open>ins_at q v f\<close> is the sequence \<open>f\<close> with \<open>v\<close> inserted at index \<open>q\<close>; \<open>all_keys\<close>
  and \<open>all_children\<close> are the 256 keys and the 257 children to distribute. While the
  loops run, \<open>rem_c pos i\<close> and \<open>rem_k pos i\<close> count the items still to place when the
  loop counter is \<open>i\<close>, and \<open>tgt parent newp x\<close> is the slot that item \<open>x\<close> goes to:
  items 0 to 128 stay in the node, the others go to the sibling.
\<close>

definition ins_at :: "nat \<Rightarrow> 'a \<Rightarrow> (nat \<Rightarrow> 'a) \<Rightarrow> nat \<Rightarrow> 'a" where
  "ins_at q v f x = (if x < q then f x else if x = q then v else f (x - 1))"

definition rem_c :: "nat \<Rightarrow> nat \<Rightarrow> nat" where
  "rem_c pos i = (if i > pos + 1 then i + 1 else i)"

definition rem_k :: "nat \<Rightarrow> nat \<Rightarrow> nat" where
  "rem_k pos i = (if i > pos then i + 1 else i)"

definition tgt :: "blkp \<Rightarrow> blkp \<Rightarrow> nat \<Rightarrow> nat \<times> blkp" where
  "tgt parent newp x = (if x \<ge> 129 then (x - 129, newp) else (x, parent))"

definition all_keys :: "bplus \<Rightarrow> blkp \<Rightarrow> nat \<Rightarrow> lkey_t \<Rightarrow> nat \<Rightarrow> lkey_t" where
  "all_keys b parent pos k = ins_at pos k (\<lambda>s. words (blk b parent) (1 + s))"

definition all_children :: "bplus \<Rightarrow> blkp \<Rightarrow> nat \<Rightarrow> blkp \<Rightarrow> nat \<Rightarrow> blkp" where
  "all_children b parent pos new = ins_at (pos + 1) new (\<lambda>s. words (blk b parent) (256 + s))"

text \<open>The key that \<^verbatim>\<open>split_index\<close> promotes, and the state it leaves.\<close>

definition split_index_key :: "bplus \<Rightarrow> blkp \<Rightarrow> blkp \<Rightarrow> nat \<Rightarrow> lkey_t \<Rightarrow> blkp \<Rightarrow> lkey_t" where
  "split_index_key b parent newp pos k new = fst (snd (split_index b parent newp pos k new))"

definition split_index_state :: "bplus \<Rightarrow> blkp \<Rightarrow> blkp \<Rightarrow> nat \<Rightarrow> lkey_t \<Rightarrow> blkp \<Rightarrow> bplus" where
  "split_index_state b parent newp pos k new = snd (snd (split_index b parent newp pos k new))"

text \<open>Two states that differ in the contents of blocks only.\<close>

definition same_handle :: "bplus \<Rightarrow> bplus \<Rightarrow> bool" where
  "same_handle b b' \<longleftrightarrow>
     root b' = root b \<and> leaves b' = leaves b \<and> depth b' = depth b \<and>
     cursor_list b' = cursor_list b \<and> num_recs b' = num_recs b \<and> num_blks b' = num_blks b \<and>
     num_crsrs b' = num_crsrs b \<and> path_length b' = path_length b \<and> path b' = path b \<and>
     new_root b' = new_root b \<and> cursors b' = cursors b \<and> pages b' = pages b \<and>
     mallocs b' = mallocs b \<and> next_cursor b' = next_cursor b"

section \<open>The nodes of a tree\<close>

text \<open>
  The number of nodes below and including \<open>nd\<close>, a node that has \<open>n\<close> index levels
  at and below it: the node and, for an index node, the nodes of its
  \<open>num_keys + 1\<close> children. \<open>count_nodes (depth b) b (root b)\<close> is the total number of
  nodes of the tree.
\<close>

fun count_nodes :: "nat \<Rightarrow> bplus \<Rightarrow> blkp \<Rightarrow> nat" where
  "count_nodes 0 b nd = 1"
| "count_nodes (Suc n) b nd =
     1 + (\<Sum>i \<leftarrow> [0 ..< num_keys (blk b nd) + 1]. count_nodes n b (get_child (blk b nd) i))"

text \<open>
  \<open>full_root_tree\<close> is the tree after the keys 1 to 32895 were inserted in ascending
  order, each with its key as value: the root (block 1) is an index node with 255 keys
  and 256 leaves (blocks 2 to 257), of which the first 255 hold 128 keys each and the
  last one is full; leaf \<open>i\<close> holds the keys from \<open>128 * i + 1\<close> on. The allocator
  will grant the pages 300 to 303.
\<close>

definition root_blk :: block where
  "root_blk = \<lparr>hdr = 255,
               words = (\<lambda>j. if 1 \<le> j \<and> j \<le> 255 then of_nat (128 * j + 1)
                          else if 256 \<le> j \<and> j \<le> 511 then of_nat (j - 254) else 0)\<rparr>"

definition leaf_blk :: "nat \<Rightarrow> block" where
  "leaf_blk i =
     (if i < 255 then
        \<lparr>hdr = 128,
         words = (\<lambda>j. if 1 \<le> j \<and> j \<le> 128 then of_nat (128 * i + j)
                     else if 256 \<le> j \<and> j \<le> 383 then of_nat (128 * i + (j - 255))
                     else if j = 511 then of_nat (i + 3) else 0)\<rparr>
      else
        \<lparr>hdr = 255,
         words = (\<lambda>j. if 1 \<le> j \<and> j \<le> 255 then of_nat (128 * i + j)
                     else if 256 \<le> j \<and> j \<le> 510 then of_nat (128 * i + (j - 255)) else 0)\<rparr>)"

definition full_root_tree :: bplus where
  "full_root_tree =
     \<lparr>root = 1, leaves = 2, depth = 1, cursor_list = [],
      num_recs = 32895, num_blks = 257, num_crsrs = 0,
      path_length = 1, path = Some no_frame, new_root = 0,
      blocks = (\<lambda>p. if p = 1 then Some root_blk
                    else if 2 \<le> unat p \<and> unat p \<le> 257 then Some (leaf_blk (unat p - 2)) else None),
      cursors = (\<lambda>_. None), pages = [300, 301, 302, 303], mallocs = [], next_cursor = 0\<rparr>"

section \<open>Reading a state after a store\<close>

text \<open>
  What the selectors and the block readers see after each of the elementary stores.
  These equations run the model on a state without unfolding the stores.
\<close>

lemma blk_field_upd [simp]:
  "blk (b\<lparr>root := x_root\<rparr>) = blk b"
  "blk (b\<lparr>leaves := x_leaves\<rparr>) = blk b"
  "blk (b\<lparr>depth := x_depth\<rparr>) = blk b"
  "blk (b\<lparr>cursor_list := x_cursor_list\<rparr>) = blk b"
  "blk (b\<lparr>num_recs := x_num_recs\<rparr>) = blk b"
  "blk (b\<lparr>num_blks := x_num_blks\<rparr>) = blk b"
  "blk (b\<lparr>num_crsrs := x_num_crsrs\<rparr>) = blk b"
  "blk (b\<lparr>path_length := x_path_length\<rparr>) = blk b"
  "blk (b\<lparr>path := x_path\<rparr>) = blk b"
  "blk (b\<lparr>new_root := x_new_root\<rparr>) = blk b"
  "blk (b\<lparr>cursors := x_cursors\<rparr>) = blk b"
  "blk (b\<lparr>pages := x_pages\<rparr>) = blk b"
  "blk (b\<lparr>mallocs := x_mallocs\<rparr>) = blk b"
  "blk (b\<lparr>next_cursor := x_next_cursor\<rparr>) = blk b"
  by (simp_all add: blk_def fun_eq_iff)

lemma mapped_field_upd [simp]:
  "mapped (b\<lparr>root := x_root\<rparr>) = mapped b"
  "mapped (b\<lparr>leaves := x_leaves\<rparr>) = mapped b"
  "mapped (b\<lparr>depth := x_depth\<rparr>) = mapped b"
  "mapped (b\<lparr>cursor_list := x_cursor_list\<rparr>) = mapped b"
  "mapped (b\<lparr>num_recs := x_num_recs\<rparr>) = mapped b"
  "mapped (b\<lparr>num_blks := x_num_blks\<rparr>) = mapped b"
  "mapped (b\<lparr>num_crsrs := x_num_crsrs\<rparr>) = mapped b"
  "mapped (b\<lparr>path_length := x_path_length\<rparr>) = mapped b"
  "mapped (b\<lparr>path := x_path\<rparr>) = mapped b"
  "mapped (b\<lparr>new_root := x_new_root\<rparr>) = mapped b"
  "mapped (b\<lparr>cursors := x_cursors\<rparr>) = mapped b"
  "mapped (b\<lparr>pages := x_pages\<rparr>) = mapped b"
  "mapped (b\<lparr>mallocs := x_mallocs\<rparr>) = mapped b"
  "mapped (b\<lparr>next_cursor := x_next_cursor\<rparr>) = mapped b"
  by (simp_all add: mapped_def fun_eq_iff)

lemma frames_field_upd [simp]:
  "frames (b\<lparr>root := x_root\<rparr>) = frames b"
  "frames (b\<lparr>leaves := x_leaves\<rparr>) = frames b"
  "frames (b\<lparr>depth := x_depth\<rparr>) = frames b"
  "frames (b\<lparr>cursor_list := x_cursor_list\<rparr>) = frames b"
  "frames (b\<lparr>num_recs := x_num_recs\<rparr>) = frames b"
  "frames (b\<lparr>num_blks := x_num_blks\<rparr>) = frames b"
  "frames (b\<lparr>num_crsrs := x_num_crsrs\<rparr>) = frames b"
  "frames (b\<lparr>path_length := x_path_length\<rparr>) = frames b"
  "frames (b\<lparr>new_root := x_new_root\<rparr>) = frames b"
  "frames (b\<lparr>blocks := x_blocks\<rparr>) = frames b"
  "frames (b\<lparr>cursors := x_cursors\<rparr>) = frames b"
  "frames (b\<lparr>pages := x_pages\<rparr>) = frames b"
  "frames (b\<lparr>mallocs := x_mallocs\<rparr>) = frames b"
  "frames (b\<lparr>next_cursor := x_next_cursor\<rparr>) = frames b"
  by (simp_all add: frames_def)

lemma wr_sel [simp]:
  "root (wr b p j v) = root b"
  "leaves (wr b p j v) = leaves b"
  "depth (wr b p j v) = depth b"
  "cursor_list (wr b p j v) = cursor_list b"
  "num_recs (wr b p j v) = num_recs b"
  "num_blks (wr b p j v) = num_blks b"
  "num_crsrs (wr b p j v) = num_crsrs b"
  "path_length (wr b p j v) = path_length b"
  "path (wr b p j v) = path b"
  "new_root (wr b p j v) = new_root b"
  "cursors (wr b p j v) = cursors b"
  "pages (wr b p j v) = pages b"
  "mallocs (wr b p j v) = mallocs b"
  "next_cursor (wr b p j v) = next_cursor b"
  by (simp_all add: wr_def)

lemma set_num_keys_sel [simp]:
  "root (set_num_keys b p n) = root b"
  "leaves (set_num_keys b p n) = leaves b"
  "depth (set_num_keys b p n) = depth b"
  "cursor_list (set_num_keys b p n) = cursor_list b"
  "num_recs (set_num_keys b p n) = num_recs b"
  "num_blks (set_num_keys b p n) = num_blks b"
  "num_crsrs (set_num_keys b p n) = num_crsrs b"
  "path_length (set_num_keys b p n) = path_length b"
  "path (set_num_keys b p n) = path b"
  "new_root (set_num_keys b p n) = new_root b"
  "cursors (set_num_keys b p n) = cursors b"
  "pages (set_num_keys b p n) = pages b"
  "mallocs (set_num_keys b p n) = mallocs b"
  "next_cursor (set_num_keys b p n) = next_cursor b"
  by (simp_all add: set_num_keys_def)

lemma wrdmove_sel [simp]:
  "root (wrdmove b dp dof sp so nw) = root b"
  "leaves (wrdmove b dp dof sp so nw) = leaves b"
  "depth (wrdmove b dp dof sp so nw) = depth b"
  "cursor_list (wrdmove b dp dof sp so nw) = cursor_list b"
  "num_recs (wrdmove b dp dof sp so nw) = num_recs b"
  "num_blks (wrdmove b dp dof sp so nw) = num_blks b"
  "num_crsrs (wrdmove b dp dof sp so nw) = num_crsrs b"
  "path_length (wrdmove b dp dof sp so nw) = path_length b"
  "path (wrdmove b dp dof sp so nw) = path b"
  "new_root (wrdmove b dp dof sp so nw) = new_root b"
  "cursors (wrdmove b dp dof sp so nw) = cursors b"
  "pages (wrdmove b dp dof sp so nw) = pages b"
  "mallocs (wrdmove b dp dof sp so nw) = mallocs b"
  "next_cursor (wrdmove b dp dof sp so nw) = next_cursor b"
  by (simp_all add: wrdmove_def)

lemma free_page_sel [simp]:
  "root (free_page_for_block b p) = root b"
  "leaves (free_page_for_block b p) = leaves b"
  "depth (free_page_for_block b p) = depth b"
  "cursor_list (free_page_for_block b p) = cursor_list b"
  "num_recs (free_page_for_block b p) = num_recs b"
  "num_blks (free_page_for_block b p) = num_blks b"
  "num_crsrs (free_page_for_block b p) = num_crsrs b"
  "path_length (free_page_for_block b p) = path_length b"
  "path (free_page_for_block b p) = path b"
  "new_root (free_page_for_block b p) = new_root b"
  "cursors (free_page_for_block b p) = cursors b"
  "pages (free_page_for_block b p) = pages b"
  "mallocs (free_page_for_block b p) = mallocs b"
  "next_cursor (free_page_for_block b p) = next_cursor b"
  by (simp_all add: free_page_for_block_def)

lemma dec_num_keys_sel [simp]:
  "root (dec_num_keys b p) = root b"
  "leaves (dec_num_keys b p) = leaves b"
  "depth (dec_num_keys b p) = depth b"
  "cursor_list (dec_num_keys b p) = cursor_list b"
  "num_recs (dec_num_keys b p) = num_recs b"
  "num_blks (dec_num_keys b p) = num_blks b"
  "num_crsrs (dec_num_keys b p) = num_crsrs b"
  "path_length (dec_num_keys b p) = path_length b"
  "path (dec_num_keys b p) = path b"
  "new_root (dec_num_keys b p) = new_root b"
  "cursors (dec_num_keys b p) = cursors b"
  "pages (dec_num_keys b p) = pages b"
  "mallocs (dec_num_keys b p) = mallocs b"
  "next_cursor (dec_num_keys b p) = next_cursor b"
  by (simp_all add: dec_num_keys_def)

lemma sweep_cursors_sel [simp]:
  "root (sweep_cursors f b) = root b"
  "leaves (sweep_cursors f b) = leaves b"
  "depth (sweep_cursors f b) = depth b"
  "cursor_list (sweep_cursors f b) = cursor_list b"
  "num_recs (sweep_cursors f b) = num_recs b"
  "num_blks (sweep_cursors f b) = num_blks b"
  "num_crsrs (sweep_cursors f b) = num_crsrs b"
  "path_length (sweep_cursors f b) = path_length b"
  "path (sweep_cursors f b) = path b"
  "new_root (sweep_cursors f b) = new_root b"
  "blocks (sweep_cursors f b) = blocks b"
  "pages (sweep_cursors f b) = pages b"
  "mallocs (sweep_cursors f b) = mallocs b"
  "next_cursor (sweep_cursors f b) = next_cursor b"
  by (simp_all add: sweep_cursors_def)

lemma set_frame_sel [simp]:
  "root (set_frame b d fr) = root b"
  "leaves (set_frame b d fr) = leaves b"
  "depth (set_frame b d fr) = depth b"
  "cursor_list (set_frame b d fr) = cursor_list b"
  "num_recs (set_frame b d fr) = num_recs b"
  "num_blks (set_frame b d fr) = num_blks b"
  "num_crsrs (set_frame b d fr) = num_crsrs b"
  "path_length (set_frame b d fr) = path_length b"
  "new_root (set_frame b d fr) = new_root b"
  "blocks (set_frame b d fr) = blocks b"
  "cursors (set_frame b d fr) = cursors b"
  "pages (set_frame b d fr) = pages b"
  "mallocs (set_frame b d fr) = mallocs b"
  "next_cursor (set_frame b d fr) = next_cursor b"
  by (simp_all add: set_frame_def)

lemma map_page_sel [simp]:
  "root (map_page b p) = root b"
  "leaves (map_page b p) = leaves b"
  "depth (map_page b p) = depth b"
  "cursor_list (map_page b p) = cursor_list b"
  "num_recs (map_page b p) = num_recs b"
  "num_blks (map_page b p) = num_blks b"
  "num_crsrs (map_page b p) = num_crsrs b"
  "path_length (map_page b p) = path_length b"
  "path (map_page b p) = path b"
  "new_root (map_page b p) = new_root b"
  "cursors (map_page b p) = cursors b"
  "pages (map_page b p) = pages b"
  "mallocs (map_page b p) = mallocs b"
  "next_cursor (map_page b p) = next_cursor b"
  by (simp_all add: map_page_def)

lemma map_page_read [simp]:
  "frames (map_page b p) = frames b"
  "mapped (map_page b p) q = (q = p \<or> mapped b q)"
  "blk (map_page b p) q = (if q = p then zero_block else blk b q)"
  by (auto simp: map_page_def frames_def mapped_def blk_def)

lemma zero_block_read [simp]: "hdr zero_block = 0" "words zero_block i = 0"
  by (simp_all add: zero_block_def)

lemma cursors_sweep_gen:
  "distinct cs \<Longrightarrow>
   fold (\<lambda>c m. case m c of Some r \<Rightarrow> m(c \<mapsto> f r) | None \<Rightarrow> m) cs m0 c =
     (if c \<in> set cs then map_option f (m0 c) else m0 c)"
proof (induction cs arbitrary: m0)
  case Nil
  then show ?case by simp
next
  case (Cons a cs)
  then show ?case by (cases "m0 a") auto
qed

lemma cursors_sweep:
  "distinct (cursor_list b) \<Longrightarrow>
   cursors (sweep_cursors f b) c =
     (if c \<in> set (cursor_list b) then map_option f (cursors b c) else cursors b c)"
  by (simp add: sweep_cursors_def cursors_sweep_gen)

lemma frames_store [simp]:
  "frames (wr b p j v) = frames b"
  "frames (set_num_keys b p n) = frames b"
  "frames (wrdmove b dp dof sp so nw) = frames b"
  "frames (free_page_for_block b p) = frames b"
  "frames (dec_num_keys b p) = frames b"
  "frames (sweep_cursors f b) = frames b"
  by (simp_all add: frames_def)

lemma frames_set_frame [simp]: "frames (set_frame b d fr) = (frames b)(d := fr)"
  by (simp add: set_frame_def frames_def)

lemma path_set_frame [simp]: "path (set_frame b d fr) = Some ((frames b)(d := fr))"
  by (simp add: set_frame_def)

lemma blk_unchanged [simp]:
  "blk (sweep_cursors f b) = blk b"
  "blk (set_frame b d fr) = blk b"
  by (simp_all add: blk_def fun_eq_iff sweep_cursors_def set_frame_def)

lemma mapped_unchanged [simp]:
  "mapped (sweep_cursors f b) = mapped b"
  "mapped (set_frame b d fr) = mapped b"
  by (simp_all add: mapped_def fun_eq_iff sweep_cursors_def set_frame_def)

lemma mapped_store [simp]:
  "mapped (wr b p j v) q = (q = p \<or> mapped b q)"
  "mapped (set_num_keys b p n) q = (q = p \<or> mapped b q)"
  "mapped (wrdmove b dp dof sp so nw) q = (q = dp \<or> mapped b q)"
  "mapped (dec_num_keys b p) q = (q = p \<or> mapped b q)"
  "mapped (free_page_for_block b p) q = (q \<noteq> p \<and> mapped b q)"
  by (auto simp: mapped_def wr_def set_num_keys_def wrdmove_def dec_num_keys_def
        free_page_for_block_def)

lemma hdr_store [simp]:
  "hdr (blk (wr b p j v) q) = hdr (blk b q)"
  "hdr (blk (set_num_keys b p n) q) = (if q = p then of_nat n else hdr (blk b q))"
  "hdr (blk (wrdmove b dp dof sp so nw) q) = hdr (blk b q)"
  "hdr (blk (dec_num_keys b p) q) = (if q = p then hdr (blk b p) - 1 else hdr (blk b q))"
  by (simp_all add: blk_def wr_def set_num_keys_def wrdmove_def dec_num_keys_def)

lemma words_store [simp]:
  "words (blk (wr b p j v) q) i = (if q = p \<and> i = j then v else words (blk b q) i)"
  "words (blk (set_num_keys b p n) q) = words (blk b q)"
  "words (blk (wrdmove b dp dof sp so nw) q) i =
     (if q = dp \<and> dof \<le> i \<and> i < dof + nw then words (blk b sp) (so + (i - dof))
      else words (blk b q) i)"
  "words (blk (dec_num_keys b p) q) = words (blk b q)"
  by (simp_all add: blk_def wr_def set_num_keys_def wrdmove_def dec_num_keys_def)

lemma blk_free [simp]:
  "blk (free_page_for_block b p) q = (if q = p then zero_block else blk b q)"
  by (simp add: blk_def free_page_for_block_def)

lemma cursors_sweep_one [simp]:
  "cursors (sweep_cursors f (b\<lparr>cursor_list := []\<rparr>)) = cursors b"
  by (simp add: sweep_cursors_def)

section \<open>Running the concrete trees\<close>

lemma full_leaf_tree_sel [simp]:
  "root full_leaf_tree = 1" "leaves full_leaf_tree = 1" "depth full_leaf_tree = 0"
  "cursor_list full_leaf_tree = [0]" "num_recs full_leaf_tree = 255" "num_blks full_leaf_tree = 1"
  "num_crsrs full_leaf_tree = 1" "path_length full_leaf_tree = 0" "path full_leaf_tree = None"
  "new_root full_leaf_tree = 0" "pages full_leaf_tree = [2, 3]"
  "mallocs full_leaf_tree = [None, Some no_frame]" "next_cursor full_leaf_tree = 1"
  "cursors full_leaf_tree c = (if c = 0 then Some \<lparr>c_tree = True, c_leaf = 1, c_pos = 199, c_invalid = 0\<rparr> else None)"
  "mapped full_leaf_tree p = (p = 1)"
  "blk full_leaf_tree p = (if p = 1 then full_leaf else zero_block)"
  by (simp_all add: full_leaf_tree_def mapped_def blk_def)

lemma full_leaf_read [simp]:
  "hdr full_leaf = 255"
  "words full_leaf j = (if 1 \<le> j \<and> j \<le> 255 then of_nat j
                            else if 256 \<le> j \<and> j \<le> 510 then of_nat (j - 255) else 0)"
  by (simp_all add: full_leaf_def)

lemma scan_full: "scan_leaf_keys full_leaf 256 = 255"
  by (simp add: scan_leaf_keys_def scan_leaf_loop.simps num_keys_def get_key_def)

lemmas run_insert = insert_bp_def path_reserved_def find_leaf_def find_leaf_loop.simps
      preallocate_splits_def prealloc_loop.simps new_leaf_block_def new_index_block_def
      alloc_page_for_block_def MAP_FAILED_def split_leaf_def wrdcpy_def set_next_leaf_def insert_new_leaf_def
      insert_new_leaf_loop.simps add_root_block_def Let_def num_keys_def
      get_key_def get_value_def get_child_def next_leaf_def cursors_sweep u32_def u64_def
      scan_leaf_keys_def scan_leaf_loop.simps scan_index_keys_def scan_index_loop.simps fault_of_def

lemma split_tree_eval:
  "(case insert_bp full_leaf_tree 256 256 of
     Inr (e, b1) \<Rightarrow>
        (e, depth b1, path_length b1, path b1, root b1, mallocs b1, num_blks b1, num_recs b1,
         mapped b1 1, mapped b1 2, hdr (blk b1 2), words (blk b1 2) (Suc 0), words (blk b1 2) 256,
         hdr (blk b1 1), words (blk b1 1) (Suc 0), words (blk b1 1) 256)
        = (OK, 1, 0, None, 2, [None, Some no_frame], 3, 256, True, True, 1, 129, 1, 128, 1, 1)
   | Inl f \<Rightarrow> False)"
  by (simp add: run_insert)

lemma split_tree_sel [simp]:
  "depth split_tree = 1" "path_length split_tree = 0" "path split_tree = None"
  "root split_tree = 2" "mallocs split_tree = [None, Some no_frame]"
  "num_blks split_tree = 3" "num_recs split_tree = 256"
  "mapped split_tree 1" "mapped split_tree 2"
  "hdr (blk split_tree 2) = 1" "words (blk split_tree 2) (Suc 0) = 129" "words (blk split_tree 2) 256 = 1"
  "hdr (blk split_tree 1) = 128" "words (blk split_tree 1) (Suc 0) = 1" "words (blk split_tree 1) 256 = 1"
  using split_tree_eval by (simp_all add: split_tree_def split: sum.splits prod.splits)

lemmas run_small = new_bplus_tree_def MAP_FAILED_def path_reserved_def find_leaf_def find_leaf_loop.simps
  scan_leaf_keys_def scan_leaf_loop.simps blk_def zero_block_def num_keys_def mapped_def
  insert_bp_def insert_into_leaf_def wr_def set_num_keys_def wrdmove_def sweep_cursors_def
  get_key_def get_value_def set_value_def u64_def u32_def sub64_def sub32_def Let_def
  delete_bp_def find_bp_def fault_of_def make_bplus_cursor_def first_record_def
  next_record_def get_record_def update_record_def free_cursor_def get_tree_def
  free_bplus_tree_def free_index_subtree.simps free_children.simps free_leaf_block_def
  free_index_block_def free_page_for_block_def next_leaf_def


section \<open>The split of an index node\<close>

text \<open>
  What the two loops of \<^verbatim>\<open>split_index\<close> leave in every word of every block, by
  induction on the loop counter, and from that the contents of the node and its sibling
  after the split.
\<close>

lemma step_tgt: "0 < x \<Longrightarrow> x \<le> 256 \<Longrightarrow> step_target parent (tgt parent newp x) = tgt parent newp (x - 1)"
  by (auto simp: step_target_def tgt_def)

lemma split_children_0: "split_children parent pos new 0 t b = b"
  by (subst split_children.simps) simp

lemma split_children_Suc:
  "split_children parent pos new (Suc i1) t b =
     (if i1 < pos \<and> i1 < 129 then b
      else if i1 = pos + 1
      then split_children parent pos new i1 (step_target parent (step_target parent t))
             (wr (wr b (snd t) (256 + fst t) (words (blk b parent) (256 + i1)))
                 (snd (step_target parent t)) (256 + fst (step_target parent t)) new)
      else split_children parent pos new i1 (step_target parent t)
             (wr b (snd t) (256 + fst t) (words (blk b parent) (256 + i1))))"
  by (subst split_children.simps) (simp add: Let_def)

lemma split_children_words:
  "parent \<noteq> newp \<Longrightarrow> pos \<le> 255 \<Longrightarrow> i \<le> 256 \<Longrightarrow>
   (0 < rem_c pos i \<longrightarrow> t = tgt parent newp (rem_c pos i - 1)) \<Longrightarrow>
   (\<forall>s<i. words (blk b parent) (256 + s) = C s) \<Longrightarrow>
   words (blk (split_children parent pos new i t b) q) w =
     (if q = parent \<and> 256 \<le> w \<and> w < 256 + min (rem_c pos i) 129 then ins_at (pos + 1) new C (w - 256)
      else if q = newp \<and> 256 \<le> w \<and> w + 129 < 256 + rem_c pos i then ins_at (pos + 1) new C (w - 256 + 129)
      else words (blk b q) w)"
proof (induction i arbitrary: t b)
  case 0
  then show ?case by (auto simp: split_children_0 rem_c_def)
next
  case (Suc i1)
  note pn = Suc.prems(1) and pos = Suc.prems(2) and ile = Suc.prems(3) and tt = Suc.prems(4)
    and srcs = Suc.prems(5)
  show ?case
  proof (cases "i1 < pos \<and> i1 < 129")
    case True
    then have r: "rem_c pos (Suc i1) = Suc i1" by (simp add: rem_c_def)
    have "\<And>x. x < Suc i1 \<Longrightarrow> ins_at (pos + 1) new C x = words (blk b parent) (256 + x)"
      using srcs True by (simp add: ins_at_def)
    then show ?thesis using True r
      by (auto simp: split_children_Suc min_def)
  next
    case nb: False
    have rpos: "0 < rem_c pos (Suc i1)" by (simp add: rem_c_def)
    then have t: "t = tgt parent newp (rem_c pos (Suc i1) - 1)" using tt by simp
    have rle: "rem_c pos (Suc i1) \<le> 257" using ile by (simp add: rem_c_def)
    define b1 where "b1 = wr b (snd t) (256 + fst t) (words (blk b parent) (256 + i1))"
    define t1 where "t1 = step_target parent t"
    have src: "words (blk b parent) (256 + i1) = C i1" using srcs by simp
    have val: "ins_at (pos + 1) new C (rem_c pos (Suc i1) - 1) = C i1"
      using nb by (auto simp: ins_at_def rem_c_def)
    have src1: "\<forall>s<i1. words (blk b1 parent) (256 + s) = C s"
      using srcs t pn by (auto simp: b1_def tgt_def rem_c_def split: if_splits)
    show ?thesis
    proof (cases "i1 = pos + 1")
      case ins: True
      then have r: "rem_c pos (Suc i1) = pos + 3" "rem_c pos i1 = pos + 1" by (simp_all add: rem_c_def)
      have pos4: "pos \<le> 254" using ile ins by simp
      have t1': "t1 = tgt parent newp (pos + 1)"
        unfolding t1_def t r using pos4 by (subst step_tgt) auto
      define b2 where "b2 = wr b1 (snd t1) (256 + fst t1) new"
      have st: "step_target parent t1 = tgt parent newp pos"
        unfolding t1' using pos4 by (subst step_tgt) auto
      have eq: "split_children parent pos new (Suc i1) t b = split_children parent pos new i1 (step_target parent t1) b2"
        using nb ins by (auto simp: split_children_Suc b1_def t1_def b2_def)
      have src2: "\<forall>s<i1. words (blk b2 parent) (256 + s) = C s"
        using src1 ins t1' pn by (auto simp: b2_def tgt_def)
      have IH: "words (blk (split_children parent pos new i1 (step_target parent t1) b2) q) w =
         (if q = parent \<and> 256 \<le> w \<and> w < 256 + min (rem_c pos i1) 129 then ins_at (pos + 1) new C (w - 256)
          else if q = newp \<and> 256 \<le> w \<and> w + 129 < 256 + rem_c pos i1 then ins_at (pos + 1) new C (w - 256 + 129)
          else words (blk b2 q) w)"
        by (rule Suc.IH [OF pn pos _ _ src2]) (use ile st r in auto)
      have tv: "t = tgt parent newp (pos + 2)" using t r by simp
      have b2w: "words (blk b2 q) w =
          (if q = snd (tgt parent newp (pos + 1)) \<and> w = 256 + fst (tgt parent newp (pos + 1)) then new
           else if q = snd (tgt parent newp (pos + 2)) \<and> w = 256 + fst (tgt parent newp (pos + 2)) then C i1
           else words (blk b q) w)"
        by (simp add: b2_def b1_def src t1' tv)
      have v1: "ins_at (pos + 1) new C (pos + 1) = new" "ins_at (pos + 1) new C (pos + 2) = C i1"
        using ins by (simp_all add: ins_at_def)
      define w1 where "w1 = 256 + fst (tgt parent newp (pos + 1))"
      define w2 where "w2 = 256 + fst (tgt parent newp (pos + 2))"
      define q1 where "q1 = snd (tgt parent newp (pos + 1))"
      define q2 where "q2 = snd (tgt parent newp (pos + 2))"
      have b2w': "words (blk b2 q) w =
          (if q = q1 \<and> w = w1 then new else if q = q2 \<and> w = w2 then C i1 else words (blk b q) w)"
        by (simp add: b2w w1_def w2_def q1_def q2_def)
      have locs: "(pos + 1 \<ge> 129 \<longrightarrow> q1 = newp \<and> q2 = newp \<and> w1 = pos + 128 \<and> w2 = pos + 129) \<and>
                  (pos + 1 = 128 \<longrightarrow> q1 = parent \<and> q2 = newp \<and> w1 = 384 \<and> w2 = 256) \<and>
                  (pos + 1 < 128 \<longrightarrow> q1 = parent \<and> q2 = parent \<and> w1 = pos + 257 \<and> w2 = pos + 258)"
        by (auto simp: w1_def w2_def q1_def q2_def tgt_def)
      have goal: "(if q = parent \<and> 256 \<le> w \<and> w < 256 + min (pos + 1) 129 then ins_at (pos + 1) new C (w - 256)
          else if q = newp \<and> 256 \<le> w \<and> w + 129 < 256 + (pos + 1) then ins_at (pos + 1) new C (w - 256 + 129)
          else if q = q1 \<and> w = w1 then new else if q = q2 \<and> w = w2 then C i1 else words (blk b q) w) =
         (if q = parent \<and> 256 \<le> w \<and> w < 256 + min (pos + 3) 129 then ins_at (pos + 1) new C (w - 256)
          else if q = newp \<and> 256 \<le> w \<and> w + 129 < 256 + (pos + 3) then ins_at (pos + 1) new C (w - 256 + 129)
          else words (blk b q) w)"
      proof -
        consider "pos + 1 \<ge> 129" | "pos + 1 = 128" | "pos + 1 < 128" by linarith
        then show ?thesis
        proof cases
          case 1
          with locs have l: "q1 = newp" "q2 = newp" "w1 = pos + 128" "w2 = pos + 129" by simp_all
          consider "q = newp \<and> w = pos + 128" | "q = newp \<and> w = pos + 129"
            | "\<not> (q = newp \<and> (w = pos + 128 \<or> w = pos + 129))" by blast
          then show ?thesis
          proof cases
            case 1
            with \<open>pos + 1 \<ge> 129\<close> pn v1 show ?thesis by (simp add: l min_def)
          next
            case 2
            with \<open>pos + 1 \<ge> 129\<close> pn v1 show ?thesis by (simp add: l min_def)
          next
            case 3
            with \<open>pos + 1 \<ge> 129\<close> pn show ?thesis by (auto simp: l min_def)
          qed
        next
          case 2
          with locs have l: "q1 = parent" "q2 = newp" "w1 = 384" "w2 = 256" by simp_all
          consider "q = parent \<and> w = 384" | "q = newp \<and> w = 256"
            | "\<not> (q = parent \<and> w = 384) \<and> \<not> (q = newp \<and> w = 256)" by blast
          then show ?thesis
          proof cases
            case 1
            with \<open>pos + 1 = 128\<close> pn v1 show ?thesis by (simp add: l min_def)
          next
            case 2
            with \<open>pos + 1 = 128\<close> pn v1 show ?thesis by (simp add: l min_def)
          next
            case 3
            with \<open>pos + 1 = 128\<close> pn show ?thesis by (auto simp: l min_def)
          qed
        next
          case 3
          with locs have l: "q1 = parent" "q2 = parent" "w1 = pos + 257" "w2 = pos + 258" by simp_all
          consider "q = parent \<and> w = pos + 257" | "q = parent \<and> w = pos + 258"
            | "\<not> (q = parent \<and> (w = pos + 257 \<or> w = pos + 258))" by blast
          then show ?thesis
          proof cases
            case 1
            with \<open>pos + 1 < 128\<close> pn v1 show ?thesis by (simp add: l min_def)
          next
            case 2
            with \<open>pos + 1 < 128\<close> pn v1 show ?thesis by (simp add: l min_def)
          next
            case 3
            with \<open>pos + 1 < 128\<close> pn show ?thesis by (auto simp: l min_def)
          qed
        qed
      qed
      show ?thesis unfolding eq IH r b2w' by (rule goal)
    next
      case noins: False
      then have r: "rem_c pos i1 = rem_c pos (Suc i1) - 1" using nb by (auto simp: rem_c_def)
      have t1': "0 < rem_c pos i1 \<longrightarrow> t1 = tgt parent newp (rem_c pos i1 - 1)"
        unfolding t1_def t r using rle step_tgt [of "rem_c pos (Suc i1) - 1" parent newp] by auto
      have eq: "split_children parent pos new (Suc i1) t b = split_children parent pos new i1 t1 b1"
        using nb noins by (auto simp: split_children_Suc b1_def t1_def)
      have IH: "words (blk (split_children parent pos new i1 t1 b1) q) w =
         (if q = parent \<and> 256 \<le> w \<and> w < 256 + min (rem_c pos i1) 129 then ins_at (pos + 1) new C (w - 256)
          else if q = newp \<and> 256 \<le> w \<and> w + 129 < 256 + rem_c pos i1 then ins_at (pos + 1) new C (w - 256 + 129)
          else words (blk b1 q) w)"
        by (rule Suc.IH [OF pn pos _ t1' src1]) (use ile in auto)
      define x where "x = rem_c pos (Suc i1) - 1"
      have R: "rem_c pos (Suc i1) = Suc x" "rem_c pos i1 = x" using rpos r by (simp_all add: x_def)
      have valx: "ins_at (pos + 1) new C x = C i1" using val by (simp add: x_def)
      have b1w: "words (blk b1 q) w = (if q = snd t \<and> w = 256 + fst t then C i1 else words (blk b q) w)"
        by (simp add: b1_def src)
      show ?thesis
      proof (cases "x \<ge> 129")
        case True
        then have "t = (x - 129, newp)" using t by (simp add: tgt_def x_def)
        with True valx pn show ?thesis
          unfolding eq IH R b1w by (auto simp: min_def)
      next
        case False
        then have "t = (x, parent)" using t by (simp add: tgt_def x_def)
        with False valx pn show ?thesis
          unfolding eq IH R b1w by (auto simp: min_def)
      qed
    qed
  qed
qed

lemma split_keys_0: "split_keys parent pos k 0 t b = b"
  by (subst split_keys.simps) simp

lemma split_keys_Suc:
  "split_keys parent pos k (Suc i1) t b =
     (if i1 < pos \<and> i1 < 128 then b
      else if i1 = pos
      then split_keys parent pos k i1 (step_target parent (step_target parent t))
             (wr (wr b (snd t) (1 + fst t) (words (blk b parent) (1 + i1)))
                 (snd (step_target parent t)) (1 + fst (step_target parent t)) k)
      else split_keys parent pos k i1 (step_target parent t)
             (wr b (snd t) (1 + fst t) (words (blk b parent) (1 + i1))))"
  by (subst split_keys.simps) (simp add: Let_def)

lemma split_keys_words:
  "parent \<noteq> newp \<Longrightarrow> pos \<le> 255 \<Longrightarrow> i \<le> 255 \<Longrightarrow>
   (0 < rem_k pos i \<longrightarrow> t = tgt parent newp (rem_k pos i - 1)) \<Longrightarrow>
   (\<forall>s<i. words (blk b parent) (1 + s) = K s) \<Longrightarrow>
   words (blk (split_keys parent pos k i t b) q) w =
     (if q = parent \<and> 1 \<le> w \<and> w < 1 + min (rem_k pos i) 129 then ins_at pos k K (w - 1)
      else if q = newp \<and> 1 \<le> w \<and> w + 129 < 1 + rem_k pos i then ins_at pos k K (w - 1 + 129)
      else words (blk b q) w)"
proof (induction i arbitrary: t b)
  case 0
  then show ?case by (auto simp: split_keys_0 rem_k_def)
next
  case (Suc i1)
  note pn = Suc.prems(1) and pos = Suc.prems(2) and ile = Suc.prems(3) and tt = Suc.prems(4)
    and srcs = Suc.prems(5)
  show ?case
  proof (cases "i1 < pos \<and> i1 < 128")
    case True
    then have r: "rem_k pos (Suc i1) = Suc i1" by (simp add: rem_k_def)
    have "\<And>x. x < Suc i1 \<Longrightarrow> ins_at pos k K x = words (blk b parent) (1 + x)"
      using srcs True by (simp add: ins_at_def)
    then show ?thesis using True r
      by (auto simp: split_keys_Suc min_def)
  next
    case nb: False
    have rpos: "0 < rem_k pos (Suc i1)" by (simp add: rem_k_def)
    then have t: "t = tgt parent newp (rem_k pos (Suc i1) - 1)" using tt by simp
    have rle: "rem_k pos (Suc i1) \<le> 256" using ile by (simp add: rem_k_def)
    define b1 where "b1 = wr b (snd t) (1 + fst t) (words (blk b parent) (1 + i1))"
    define t1 where "t1 = step_target parent t"
    have src: "words (blk b parent) (1 + i1) = K i1" using srcs by simp
    have val: "ins_at pos k K (rem_k pos (Suc i1) - 1) = K i1"
      using nb by (auto simp: ins_at_def rem_k_def)
    have src1: "\<forall>s<i1. words (blk b1 parent) (1 + s) = K s"
      using srcs t pn by (auto simp: b1_def tgt_def rem_k_def split: if_splits)
    show ?thesis
    proof (cases "i1 = pos")
      case ins: True
      then have r: "rem_k pos (Suc i1) = pos + 2" "rem_k pos i1 = pos" by (simp_all add: rem_k_def)
      have pos4: "pos \<le> 254" using ile ins by simp
      have t1': "t1 = tgt parent newp pos"
        unfolding t1_def t r using pos4 step_tgt [of "pos + 1" parent newp] by simp
      define b2 where "b2 = wr b1 (snd t1) (1 + fst t1) k"
      have st: "0 < pos \<longrightarrow> step_target parent t1 = tgt parent newp (pos - 1)"
        unfolding t1' using pos4 step_tgt [of pos parent newp] by simp
      have eq: "split_keys parent pos k (Suc i1) t b = split_keys parent pos k i1 (step_target parent t1) b2"
        using nb ins by (auto simp: split_keys_Suc b1_def t1_def b2_def)
      have src2: "\<forall>s<i1. words (blk b2 parent) (1 + s) = K s"
        using src1 ins t1' pn by (auto simp: b2_def tgt_def)
      have IH: "words (blk (split_keys parent pos k i1 (step_target parent t1) b2) q) w =
         (if q = parent \<and> 1 \<le> w \<and> w < 1 + min (rem_k pos i1) 129 then ins_at pos k K (w - 1)
          else if q = newp \<and> 1 \<le> w \<and> w + 129 < 1 + rem_k pos i1 then ins_at pos k K (w - 1 + 129)
          else words (blk b2 q) w)"
        by (rule Suc.IH [OF pn pos _ _ src2]) (use ile st r in auto)
      have tv: "t = tgt parent newp (pos + 1)" using t r by simp
      have b2w: "words (blk b2 q) w =
          (if q = snd (tgt parent newp pos) \<and> w = 1 + fst (tgt parent newp pos) then k
           else if q = snd (tgt parent newp (pos + 1)) \<and> w = 1 + fst (tgt parent newp (pos + 1)) then K i1
           else words (blk b q) w)"
        using src by (simp add: b2_def b1_def t1' tv)
      have v1: "ins_at pos k K pos = k" "ins_at pos k K (pos + 1) = K i1"
        using ins by (simp_all add: ins_at_def)
      define w1 where "w1 = 1 + fst (tgt parent newp pos)"
      define w2 where "w2 = 1 + fst (tgt parent newp (pos + 1))"
      define q1 where "q1 = snd (tgt parent newp pos)"
      define q2 where "q2 = snd (tgt parent newp (pos + 1))"
      have b2w': "words (blk b2 q) w =
          (if q = q1 \<and> w = w1 then k else if q = q2 \<and> w = w2 then K i1 else words (blk b q) w)"
        by (simp add: b2w w1_def w2_def q1_def q2_def)
      have locs: "(pos \<ge> 129 \<longrightarrow> q1 = newp \<and> q2 = newp \<and> w1 = pos - 128 \<and> w2 = pos - 127) \<and>
                  (pos = 128 \<longrightarrow> q1 = parent \<and> q2 = newp \<and> w1 = 129 \<and> w2 = 1) \<and>
                  (pos < 128 \<longrightarrow> q1 = parent \<and> q2 = parent \<and> w1 = pos + 1 \<and> w2 = pos + 2)"
        by (auto simp: w1_def w2_def q1_def q2_def tgt_def)
      have goal: "(if q = parent \<and> 1 \<le> w \<and> w < 1 + min pos 129 then ins_at pos k K (w - 1)
          else if q = newp \<and> 1 \<le> w \<and> w + 129 < 1 + pos then ins_at pos k K (w - 1 + 129)
          else if q = q1 \<and> w = w1 then k else if q = q2 \<and> w = w2 then K i1 else words (blk b q) w) =
         (if q = parent \<and> 1 \<le> w \<and> w < 1 + min (pos + 2) 129 then ins_at pos k K (w - 1)
          else if q = newp \<and> 1 \<le> w \<and> w + 129 < 1 + (pos + 2) then ins_at pos k K (w - 1 + 129)
          else words (blk b q) w)"
      proof -
        consider "pos \<ge> 129" | "pos = 128" | "pos < 128" by linarith
        then show ?thesis
        proof cases
          case 1
          then obtain p' where pp: "pos = p' + 129" by (metis le_add_diff_inverse2)
          with locs have l: "q1 = newp" "q2 = newp" "w1 = p' + 1" "w2 = p' + 2" by simp_all
          consider "q = newp \<and> w = p' + 1" | "q = newp \<and> w = p' + 2"
            | "\<not> (q = newp \<and> (w = p' + 1 \<or> w = p' + 2))" by blast
          then show ?thesis
          proof cases
            case 1
            with pn v1 show ?thesis by (simp add: l pp min_def)
          next
            case 2
            with pn v1 show ?thesis by (simp add: l pp min_def)
          next
            case 3
            with pn show ?thesis by (auto simp: l pp min_def)
          qed
        next
          case 2
          with locs have l: "q1 = parent" "q2 = newp" "w1 = 129" "w2 = 1" by simp_all
          consider "q = parent \<and> w = 129" | "q = newp \<and> w = 1"
            | "\<not> (q = parent \<and> w = 129) \<and> \<not> (q = newp \<and> w = 1)" by blast
          then show ?thesis
          proof cases
            case 1
            with \<open>pos = 128\<close> pn v1 show ?thesis by (auto simp: l min_def)
          next
            case 2
            with \<open>pos = 128\<close> pn v1 show ?thesis by (auto simp: l min_def)
          next
            case 3
            with \<open>pos = 128\<close> pn show ?thesis by (auto simp: l min_def)
          qed
        next
          case 3
          with locs have l: "q1 = parent" "q2 = parent" "w1 = pos + 1" "w2 = pos + 2" by simp_all
          consider "q = parent \<and> w = pos + 1" | "q = parent \<and> w = pos + 2"
            | "\<not> (q = parent \<and> (w = pos + 1 \<or> w = pos + 2))" by blast
          then show ?thesis
          proof cases
            case 1
            with \<open>pos < 128\<close> pn v1 show ?thesis by (auto simp: l min_def)
          next
            case 2
            with \<open>pos < 128\<close> pn v1 show ?thesis by (auto simp: l min_def)
          next
            case 3
            with \<open>pos < 128\<close> pn show ?thesis by (auto simp: l min_def)
          qed
        qed
      qed
      show ?thesis unfolding eq IH r b2w' by (rule goal)
    next
      case noins: False
      then have r: "rem_k pos i1 = rem_k pos (Suc i1) - 1" using nb by (auto simp: rem_k_def)
      have t1': "0 < rem_k pos i1 \<longrightarrow> t1 = tgt parent newp (rem_k pos i1 - 1)"
        unfolding t1_def t r using rle step_tgt [of "rem_k pos (Suc i1) - 1" parent newp] by auto
      have eq: "split_keys parent pos k (Suc i1) t b = split_keys parent pos k i1 t1 b1"
        using nb noins by (auto simp: split_keys_Suc b1_def t1_def)
      have IH: "words (blk (split_keys parent pos k i1 t1 b1) q) w =
         (if q = parent \<and> 1 \<le> w \<and> w < 1 + min (rem_k pos i1) 129 then ins_at pos k K (w - 1)
          else if q = newp \<and> 1 \<le> w \<and> w + 129 < 1 + rem_k pos i1 then ins_at pos k K (w - 1 + 129)
          else words (blk b1 q) w)"
        by (rule Suc.IH [OF pn pos _ t1' src1]) (use ile in auto)
      define x where "x = rem_k pos (Suc i1) - 1"
      have R: "rem_k pos (Suc i1) = Suc x" "rem_k pos i1 = x" using rpos r by (simp_all add: x_def)
      have valx: "ins_at pos k K x = K i1" using val by (simp add: x_def)
      have b1w: "words (blk b1 q) w = (if q = snd t \<and> w = 1 + fst t then K i1 else words (blk b q) w)"
        using src by (simp add: b1_def)
      show ?thesis
      proof (cases "x \<ge> 129")
        case True
        then have "t = (x - 129, newp)" using t by (simp add: tgt_def x_def)
        with True valx pn show ?thesis
          unfolding eq IH R b1w by (auto simp: min_def)
      next
        case False
        then have "t = (x, parent)" using t by (simp add: tgt_def x_def)
        with False valx pn show ?thesis
          unfolding eq IH R b1w by (auto simp: min_def)
      qed
    qed
  qed
qed

lemma same_handle_refl [simp]: "same_handle b b"
  by (simp add: same_handle_def)

lemma same_handle_trans: "same_handle a b \<Longrightarrow> same_handle b c \<Longrightarrow> same_handle a c"
  by (simp add: same_handle_def)

lemma same_handle_store [simp]:
  "same_handle b (wr b p j v)"
  "same_handle b (set_num_keys b p n)"
  "same_handle b (wrdmove b dp dof sp so nw)"
  "same_handle b (dec_num_keys b p)"
  by (simp_all add: same_handle_def)

lemma same_handle_frames: "same_handle b b' \<Longrightarrow> frames b' = frames b"
  by (simp add: same_handle_def frames_def)

lemma same_handle_after [simp]:
  "same_handle b0 (wr b p j v) = same_handle b0 b"
  "same_handle b0 (set_num_keys b p n) = same_handle b0 b"
  "same_handle b0 (wrdmove b dp dof sp so nw) = same_handle b0 b"
  "same_handle b0 (dec_num_keys b p) = same_handle b0 b"
  by (simp_all add: same_handle_def)

lemma step_target_snd: "snd t \<in> {parent, newp} \<Longrightarrow> snd (step_target parent t) \<in> {parent, newp}"
  by (cases t) (auto simp: step_target_def)

lemma sc_break: "i1 < pos \<and> i1 < 129 \<Longrightarrow> split_children parent pos new (Suc i1) t b = b"
  by (simp add: split_children_Suc)

lemma sc_ins: "\<not> (i1 < pos \<and> i1 < 129) \<Longrightarrow> i1 = pos + 1 \<Longrightarrow>
   split_children parent pos new (Suc i1) t b =
     split_children parent pos new i1 (step_target parent (step_target parent t))
             (wr (wr b (snd t) (256 + fst t) (words (blk b parent) (256 + i1)))
                 (snd (step_target parent t)) (256 + fst (step_target parent t)) new)"
  by (subst split_children_Suc) auto

lemma sc_copy: "\<not> (i1 < pos \<and> i1 < 129) \<Longrightarrow> i1 \<noteq> pos + 1 \<Longrightarrow>
   split_children parent pos new (Suc i1) t b =
     split_children parent pos new i1 (step_target parent t)
             (wr b (snd t) (256 + fst t) (words (blk b parent) (256 + i1)))"
  by (subst split_children_Suc) auto

lemma sk_break: "i1 < pos \<and> i1 < 128 \<Longrightarrow> split_keys parent pos k (Suc i1) t b = b"
  by (simp add: split_keys_Suc)

lemma sk_ins: "\<not> (i1 < pos \<and> i1 < 128) \<Longrightarrow> i1 = pos \<Longrightarrow>
   split_keys parent pos k (Suc i1) t b =
     split_keys parent pos k i1 (step_target parent (step_target parent t))
             (wr (wr b (snd t) (1 + fst t) (words (blk b parent) (1 + i1)))
                 (snd (step_target parent t)) (1 + fst (step_target parent t)) k)"
  by (subst split_keys_Suc) auto

lemma sk_copy: "\<not> (i1 < pos \<and> i1 < 128) \<Longrightarrow> i1 \<noteq> pos \<Longrightarrow>
   split_keys parent pos k (Suc i1) t b =
     split_keys parent pos k i1 (step_target parent t)
             (wr b (snd t) (1 + fst t) (words (blk b parent) (1 + i1)))"
  by (subst split_keys_Suc) auto

lemma split_children_handle:
  "same_handle b0 b \<Longrightarrow> same_handle b0 (split_children parent pos new i t b)"
proof (induction i arbitrary: t b)
  case 0
  then show ?case by (simp add: split_children_0)
next
  case (Suc i)
  show ?case
  proof (cases "i < pos \<and> i < 129")
    case True
    then show ?thesis using Suc.prems by (simp add: sc_break)
  next
    case nb: False
    show ?thesis
    proof (cases "i = pos + 1")
      case True
      show ?thesis
        unfolding sc_ins [OF nb True] by (rule Suc.IH) (simp add: Suc.prems)
    next
      case False
      show ?thesis
        unfolding sc_copy [OF nb False] by (rule Suc.IH) (simp add: Suc.prems)
    qed
  qed
qed

lemma split_children_hdr:
  "hdr (blk (split_children parent pos new i t b) q) = hdr (blk b q)"
proof (induction i arbitrary: t b)
  case 0
  then show ?case by (simp add: split_children_0)
next
  case (Suc i)
  show ?case
  proof (cases "i < pos \<and> i < 129")
    case True
    then show ?thesis by (simp add: sc_break)
  next
    case nb: False
    show ?thesis
    proof (cases "i = pos + 1")
      case True
      show ?thesis
        unfolding sc_ins [OF nb True] by (subst Suc.IH) simp
    next
      case False
      show ?thesis
        unfolding sc_copy [OF nb False] by (subst Suc.IH) simp
    qed
  qed
qed

lemma split_children_mapped:
  "snd t \<in> {parent, newp} \<Longrightarrow> mapped b parent \<Longrightarrow> mapped b newp \<Longrightarrow>
   mapped (split_children parent pos new i t b) q = mapped b q"
proof (induction i arbitrary: t b)
  case 0
  then show ?case by (simp add: split_children_0)
next
  case (Suc i)
  note s1 = step_target_snd [OF Suc.prems(1)]
  note s2 = step_target_snd [OF s1]
  have m: "mapped (wr b (snd t) j v) parent" "mapped (wr b (snd t) j v) newp"
    "mapped (wr (wr b (snd t) j v) (snd (step_target parent t)) j' v') parent"
    "mapped (wr (wr b (snd t) j v) (snd (step_target parent t)) j' v') newp"
    "mapped (wr b (snd t) j v) q = mapped b q"
    "mapped (wr (wr b (snd t) j v) (snd (step_target parent t)) j' v') q = mapped b q" for j v j' v'
    using Suc.prems s1 by auto
  show ?case
  proof (cases "i < pos \<and> i < 129")
    case True
    then show ?thesis by (simp add: sc_break)
  next
    case nb: False
    show ?thesis
    proof (cases "i = pos + 1")
      case True
      show ?thesis
        unfolding sc_ins [OF nb True]
        by (subst Suc.IH [OF s2]) (simp_all only: m)
    next
      case False
      show ?thesis
        unfolding sc_copy [OF nb False]
        by (subst Suc.IH [OF s1]) (simp_all only: m)
    qed
  qed
qed

lemma split_keys_handle:
  "same_handle b0 b \<Longrightarrow> same_handle b0 (split_keys parent pos k i t b)"
proof (induction i arbitrary: t b)
  case 0
  then show ?case by (simp add: split_keys_0)
next
  case (Suc i)
  show ?case
  proof (cases "i < pos \<and> i < 128")
    case True
    then show ?thesis using Suc.prems by (simp add: sk_break)
  next
    case nb: False
    show ?thesis
    proof (cases "i = pos")
      case True
      show ?thesis
        unfolding sk_ins [OF nb True] by (rule Suc.IH) (simp add: Suc.prems)
    next
      case False
      show ?thesis
        unfolding sk_copy [OF nb False] by (rule Suc.IH) (simp add: Suc.prems)
    qed
  qed
qed

lemma split_keys_hdr:
  "hdr (blk (split_keys parent pos k i t b) q) = hdr (blk b q)"
proof (induction i arbitrary: t b)
  case 0
  then show ?case by (simp add: split_keys_0)
next
  case (Suc i)
  show ?case
  proof (cases "i < pos \<and> i < 128")
    case True
    then show ?thesis by (simp add: sk_break)
  next
    case nb: False
    show ?thesis
    proof (cases "i = pos")
      case True
      show ?thesis
        unfolding sk_ins [OF nb True] by (subst Suc.IH) simp
    next
      case False
      show ?thesis
        unfolding sk_copy [OF nb False] by (subst Suc.IH) simp
    qed
  qed
qed

lemma split_keys_mapped:
  "snd t \<in> {parent, newp} \<Longrightarrow> mapped b parent \<Longrightarrow> mapped b newp \<Longrightarrow>
   mapped (split_keys parent pos k i t b) q = mapped b q"
proof (induction i arbitrary: t b)
  case 0
  then show ?case by (simp add: split_keys_0)
next
  case (Suc i)
  note s1 = step_target_snd [OF Suc.prems(1)]
  note s2 = step_target_snd [OF s1]
  have m: "mapped (wr b (snd t) j v) parent" "mapped (wr b (snd t) j v) newp"
    "mapped (wr (wr b (snd t) j v) (snd (step_target parent t)) j' v') parent"
    "mapped (wr (wr b (snd t) j v) (snd (step_target parent t)) j' v') newp"
    "mapped (wr b (snd t) j v) q = mapped b q"
    "mapped (wr (wr b (snd t) j v) (snd (step_target parent t)) j' v') q = mapped b q" for j v j' v'
    using Suc.prems s1 by auto
  show ?case
  proof (cases "i < pos \<and> i < 128")
    case True
    then show ?thesis by (simp add: sk_break)
  next
    case nb: False
    show ?thesis
    proof (cases "i = pos")
      case True
      show ?thesis
        unfolding sk_ins [OF nb True]
        by (subst Suc.IH [OF s2]) (simp_all only: m)
    next
      case False
      show ?thesis
        unfolding sk_copy [OF nb False]
        by (subst Suc.IH [OF s1]) (simp_all only: m)
    qed
  qed
qed

lemma split_index_spec:
  assumes pn: "parent \<noteq> newp" and pos: "pos \<le> 255"
  shows "fst (split_index b parent newp pos k new) = newp"
    and "fst (snd (split_index b parent newp pos k new)) = all_keys b parent pos k 128"
    and "same_handle b (snd (snd (split_index b parent newp pos k new)))"
    and "hdr (blk (snd (snd (split_index b parent newp pos k new))) q) =
           (if q = parent then 128 else if q = newp then 127 else hdr (blk b q))"
    and "mapped (snd (snd (split_index b parent newp pos k new))) q = (q = parent \<or> q = newp \<or> mapped b q)"
    and "words (blk (snd (snd (split_index b parent newp pos k new))) q) w =
           (if q = parent \<and> 256 \<le> w \<and> w < 385 then all_children b parent pos new (w - 256)
            else if q = parent \<and> 1 \<le> w \<and> w < 130 then all_keys b parent pos k (w - 1)
            else if q = newp \<and> 256 \<le> w \<and> w < 384 then all_children b parent pos new (w - 256 + 129)
            else if q = newp \<and> 1 \<le> w \<and> w < 128 then all_keys b parent pos k (w - 1 + 129)
            else words (blk b q) w)"
proof -
  define b2 where "b2 = set_num_keys (set_num_keys b parent 128) newp 127"
  define b3 where "b3 = (if pos = 255 then wr b2 newp (256 + 128 - 1) new else b2)"
  define t3 where "t3 = (if pos = 255 then 128 - 1 - 1 else 128 - (1::nat), newp)"
  define b4 where "b4 = split_children parent pos new 256 t3 b3"
  define b5 where "b5 = (if pos = 255 then wr b4 newp (1 + 128 - 2) k else b4)"
  define t5 where "t5 = (if pos = 255 then 128 - 2 - 1 else 128 - (2::nat), newp)"
  define b6 where "b6 = split_keys parent pos k 255 t5 b5"
  define C where "C = (\<lambda>s. words (blk b parent) (256 + s))"
  define K where "K = (\<lambda>s. words (blk b parent) (1 + s))"
  have si: "split_index b parent newp pos k new = (newp, words (blk b6 parent) (1 + 128), b6)"
    by (simp add: split_index_def Let_def b2_def b3_def t3_def b4_def b5_def t5_def b6_def)
  have t3: "0 < rem_c pos 256 \<longrightarrow> t3 = tgt parent newp (rem_c pos 256 - 1)"
    using pos by (auto simp: t3_def rem_c_def tgt_def)
  have src3: "\<forall>s<256. words (blk b3 parent) (256 + s) = C s"
    using pn by (simp add: b3_def b2_def C_def)
  have w4: "words (blk b4 q) w =
     (if q = parent \<and> 256 \<le> w \<and> w < 256 + min (rem_c pos 256) 129 then ins_at (pos + 1) new C (w - 256)
      else if q = newp \<and> 256 \<le> w \<and> w + 129 < 256 + rem_c pos 256 then ins_at (pos + 1) new C (w - 256 + 129)
      else words (blk b3 q) w)" for q w
    unfolding b4_def by (rule split_children_words [OF pn pos _ t3 src3]) simp
  have t5: "0 < rem_k pos 255 \<longrightarrow> t5 = tgt parent newp (rem_k pos 255 - 1)"
    using pos by (auto simp: t5_def rem_k_def tgt_def)
  have src5: "\<forall>s<255. words (blk b5 parent) (1 + s) = K s"
    using pn by (auto simp: b5_def w4 b3_def b2_def K_def)
  have w6: "words (blk b6 q) w =
     (if q = parent \<and> 1 \<le> w \<and> w < 1 + min (rem_k pos 255) 129 then ins_at pos k K (w - 1)
      else if q = newp \<and> 1 \<le> w \<and> w + 129 < 1 + rem_k pos 255 then ins_at pos k K (w - 1 + 129)
      else words (blk b5 q) w)" for q w
    unfolding b6_def by (rule split_keys_words [OF pn pos _ t5 src5]) simp
  have w3: "words (blk b3 q) w = (if pos = 255 \<and> q = newp \<and> w = 383 then new else words (blk b q) w)" for q w
    by (simp add: b3_def b2_def)
  have w5: "words (blk b5 q) w = (if pos = 255 \<and> q = newp \<and> w = 127 then k else words (blk b4 q) w)" for q w
    by (simp add: b5_def)
  show "fst (split_index b parent newp pos k new) = newp" by (simp add: si)
  show "fst (snd (split_index b parent newp pos k new)) = all_keys b parent pos k 128"
    using pos by (simp add: si w6 all_keys_def K_def rem_k_def)
  have h2: "same_handle b b2" by (simp add: b2_def)
  then have "same_handle b b3" by (simp add: b3_def)
  then have "same_handle b b4" unfolding b4_def by (rule split_children_handle)
  then have "same_handle b b5" by (simp add: b5_def)
  then have "same_handle b b6" unfolding b6_def by (rule split_keys_handle)
  then show "same_handle b (snd (snd (split_index b parent newp pos k new)))" by (simp add: si)
  show "hdr (blk (snd (snd (split_index b parent newp pos k new))) q) =
           (if q = parent then 128 else if q = newp then 127 else hdr (blk b q))"
    using pn by (simp add: si b6_def split_keys_hdr b5_def b4_def split_children_hdr b3_def b2_def)
  have m3: "mapped b3 q = (q = parent \<or> q = newp \<or> mapped b q)" for q
    by (auto simp: b3_def b2_def)
  have m4: "mapped b4 q = mapped b3 q" for q
    unfolding b4_def by (rule split_children_mapped [where newp = newp]) (simp_all add: t3_def m3)
  have m5: "mapped b5 q = (q = parent \<or> q = newp \<or> mapped b q)" for q
    by (auto simp: b5_def m4 m3)
  have m6: "mapped b6 q = mapped b5 q" for q
    unfolding b6_def by (rule split_keys_mapped [where newp = newp]) (simp_all add: t5_def m5)
  show "mapped (snd (snd (split_index b parent newp pos k new))) q = (q = parent \<or> q = newp \<or> mapped b q)"
    by (simp add: si m6 m5)
  have ca: "all_children b parent pos new = ins_at (pos + 1) new C"
    and ka: "all_keys b parent pos k = ins_at pos k K"
    by (simp_all add: all_children_def all_keys_def C_def K_def)
  show "words (blk (snd (snd (split_index b parent newp pos k new))) q) w =
           (if q = parent \<and> 256 \<le> w \<and> w < 385 then all_children b parent pos new (w - 256)
            else if q = parent \<and> 1 \<le> w \<and> w < 130 then all_keys b parent pos k (w - 1)
            else if q = newp \<and> 256 \<le> w \<and> w < 384 then all_children b parent pos new (w - 256 + 129)
            else if q = newp \<and> 1 \<le> w \<and> w < 128 then all_keys b parent pos k (w - 1 + 129)
            else words (blk b q) w)"
  proof (cases "pos = 255")
    case True
    then show ?thesis
      using pn unfolding si snd_conv w6 w5 w4 w3 ca ka
      by (auto simp: rem_k_def rem_c_def ins_at_def)
  next
    case False
    then show ?thesis
      using pn pos unfolding si snd_conv w6 w5 w4 w3 ca ka
      by (auto simp: rem_k_def rem_c_def)
  qed
qed

lemma split_index_triple:
  "split_index b parent newp pos k new =
     (newp, split_index_key b parent newp pos k new, split_index_state b parent newp pos k new)"
  by (simp add: split_index_key_def split_index_state_def split_index_def Let_def)

lemma scan_leaf_loop_eq:
  "i \<le> r \<Longrightarrow> r \<le> nk \<Longrightarrow> (\<forall>j. i \<le> j \<and> j < r \<longrightarrow> get_key b j < k) \<Longrightarrow>
   (r < nk \<longrightarrow> k \<le> get_key b r) \<Longrightarrow> scan_leaf_loop b k nk i = r"
proof (induction "r - i" arbitrary: i)
  case 0
  then show ?case by (subst scan_leaf_loop.simps) (auto simp: not_less)
next
  case (Suc n)
  then have "i < r" by simp
  with Suc.prems have "i < nk" "get_key b i < k" by auto
  moreover have "scan_leaf_loop b k nk (i + 1) = r"
    using Suc by (intro Suc.hyps(1)) auto
  ultimately show ?case by (subst scan_leaf_loop.simps) simp
qed

lemma scan_index_loop_eq:
  "i \<le> r \<Longrightarrow> r \<le> nk \<Longrightarrow> (\<forall>j. i \<le> j \<and> j < r \<longrightarrow> get_key b j \<le> k) \<Longrightarrow>
   (r < nk \<longrightarrow> k < get_key b r) \<Longrightarrow> scan_index_loop b k nk i = r"
proof (induction "r - i" arbitrary: i)
  case 0
  then show ?case by (subst scan_index_loop.simps) (auto simp: not_le)
next
  case (Suc n)
  then have "i < r" by simp
  with Suc.prems have "i < nk" "get_key b i \<le> k" by auto
  moreover have "scan_index_loop b k nk (i + 1) = r"
    using Suc by (intro Suc.hyps(1)) auto
  ultimately show ?case by (subst scan_index_loop.simps) simp
qed

lemma split_index_state_sel [simp]:
  "root (split_index_state b parent newp pos k new) = root b"
  "leaves (split_index_state b parent newp pos k new) = leaves b"
  "depth (split_index_state b parent newp pos k new) = depth b"
  "cursor_list (split_index_state b parent newp pos k new) = cursor_list b"
  "num_recs (split_index_state b parent newp pos k new) = num_recs b"
  "num_blks (split_index_state b parent newp pos k new) = num_blks b"
  "num_crsrs (split_index_state b parent newp pos k new) = num_crsrs b"
  "path_length (split_index_state b parent newp pos k new) = path_length b"
  "path (split_index_state b parent newp pos k new) = path b"
  "new_root (split_index_state b parent newp pos k new) = new_root b"
  "cursors (split_index_state b parent newp pos k new) = cursors b"
  "pages (split_index_state b parent newp pos k new) = pages b"
  "mallocs (split_index_state b parent newp pos k new) = mallocs b"
  "next_cursor (split_index_state b parent newp pos k new) = next_cursor b"
  "frames (split_index_state b parent newp pos k new) = frames b"
proof -
  have "same_handle b (split_index_state b parent newp pos k new)"
    unfolding split_index_state_def split_index_def Let_def snd_conv
    by (intro split_keys_handle) (auto intro!: split_children_handle)
  then show "root (split_index_state b parent newp pos k new) = root b"
  "leaves (split_index_state b parent newp pos k new) = leaves b"
  "depth (split_index_state b parent newp pos k new) = depth b"
  "cursor_list (split_index_state b parent newp pos k new) = cursor_list b"
  "num_recs (split_index_state b parent newp pos k new) = num_recs b"
  "num_blks (split_index_state b parent newp pos k new) = num_blks b"
  "num_crsrs (split_index_state b parent newp pos k new) = num_crsrs b"
  "path_length (split_index_state b parent newp pos k new) = path_length b"
  "path (split_index_state b parent newp pos k new) = path b"
  "new_root (split_index_state b parent newp pos k new) = new_root b"
  "cursors (split_index_state b parent newp pos k new) = cursors b"
  "pages (split_index_state b parent newp pos k new) = pages b"
  "mallocs (split_index_state b parent newp pos k new) = mallocs b"
  "next_cursor (split_index_state b parent newp pos k new) = next_cursor b"
  "frames (split_index_state b parent newp pos k new) = frames b"
    by (simp_all add: same_handle_def frames_def)
qed

section \<open>Find\<close>

text \<open>
  Claim C1: find returns OK with the value of \<open>k\<close> when \<open>k\<close> is in the tree and
  not-found otherwise, also on an empty tree. The code compares the key at the scan
  index without checking the index against the key count. On a new tree, insert (5, 7),
  delete 5: the tree is empty again (no record, no key in the root leaf), and find 5
  returns OK with the value 7 of the dead slot. On the new tree itself find 0 returns
  OK with value 0, read from the zero-filled page.
\<close>

theorem find_after_delete_reads_dead_slot:
  "(case insert_bp tree0 5 7 of
      Inr (e1, b1) \<Rightarrow>
        (case delete_bp b1 5 of
           Inr (e2, b2) \<Rightarrow>
             (e1, e2, num_recs b2, num_keys (blk b2 (root b2)),
              case find_bp b2 5 of Inr (e3, v, b3) \<Rightarrow> Some (e3, v) | Inl f \<Rightarrow> None,
              case find_bp tree0 0 of Inr (e4, v, b4) \<Rightarrow> Some (e4, v) | Inl f \<Rightarrow> None)
             = (OK, OK, 0, 0, Some (OK, Some 7), Some (OK, Some 0))
         | Inl f \<Rightarrow> False)
    | Inl f \<Rightarrow> False)"
  by (simp add: tree0_def run_small)

section \<open>Failure of an insert\<close>

text \<open>
  Claim C2: an insert that returns out-of-memory has changed nothing, path bookkeeping
  included, so that later operations behave as if it had not happened. On
  \<open>split_tree\<close> (depth 1, no path array yet) the insert of key 300 is refused the path
  array: it returns out-of-memory with the recorded path length raised from 0 to 1
  and the path pointer null. A find of key 1 on that state then writes through the null
  path pointer, although \<^verbatim>\<open>malloc\<close> would now succeed; on \<open>split_tree\<close> with the
  same allocator the find returns OK with value 1.
\<close>

theorem failed_insert_breaks_path:
  "(case insert_bp split_tree 300 300 of
      Inr (e, b1) \<Rightarrow>
        (e, path_length split_tree, path_length b1, path b1, mallocs b1, find_bp b1 1,
         case find_bp (split_tree\<lparr>mallocs := [Some no_frame]\<rparr>) 1 of
           Inr (e2, v, b2) \<Rightarrow> Some (e2, v) | Inl f \<Rightarrow> None)
        = (NOMEM, 0, 1, None, [Some no_frame], Inl NullDeref, Some (OK, Some 1))
    | Inl f \<Rightarrow> False)"
  by (simp add: run_insert find_bp_def word_le_nat_alt word_less_nat_alt)

section \<open>Cursors across a leaf split\<close>

text \<open>
  Claim C3: when a leaf splits, a cursor whose position ends at or beyond LHALF moves to
  the new sibling with its position reduced by LHALF, and its get returns the record it
  returned before. The sweep of \<^verbatim>\<open>split_leaf\<close> reduces the position and leaves
  the leaf pointer alone. On \<open>full_leaf_tree\<close> the cursor is on (200, 200) at position
  199 of leaf 1; after the insert of key 256 it is still on leaf 1, at position 71, and
  its get returns (72, 72), while the record (200, 200) is in the new leaf.
\<close>

theorem split_leaf_keeps_cursor_on_old_leaf:
  "(case insert_bp full_leaf_tree 256 256 of
      Inr (e, b1) \<Rightarrow>
        (get_record full_leaf_tree 0, e, root b1, depth b1,
         map_option c_leaf (cursors b1 0), map_option c_pos (cursors b1 0), get_record b1 0,
         case find_bp (b1\<lparr>mallocs := [Some no_frame]\<rparr>) 200 of
           Inr (e2, v, b2) \<Rightarrow> Some (e2, v) | Inl f \<Rightarrow> None)
        = (Inr (OK, Some (200, 200)), OK, 2, 1, Some 1, Some 71, Inr (OK, Some (72, 72)),
           Some (OK, Some 200))
    | Inl f \<Rightarrow> False)"
  by (simp add: run_insert get_record_def find_bp_def word_le_nat_alt word_less_nat_alt)

section \<open>What delete returns\<close>




section \<open>A deleted record that is inserted again\<close>

text \<open>
  Claim C7: after delete k has invalidated a cursor on k, a successful insert of k
  clears the flag and the cursor's get returns the new record. No insert path touches
  the flag, and \<^verbatim>\<open>insert_into_leaf\<close> moves the cursor one slot to the right. On a new
  tree: insert (5, 7), cursor on it, delete 5, insert (5, 9). The cursor is still
  flagged, now at position 1, and its get returns not-found; find 5 returns 9.
\<close>

theorem reinsert_leaves_cursor_invalid:
  "(case insert_bp tree0 5 7 of
      Inr (e1, b1) \<Rightarrow>
        (case first_record b1 of
           (Some c, b2) \<Rightarrow>
             (case delete_bp b2 5 of
                Inr (e3, b3) \<Rightarrow>
                  (case insert_bp b3 5 9 of
                     Inr (e4, b4) \<Rightarrow>
                       (e1, get_record b2 c, e3, get_record b3 c, e4, get_record b4 c,
                        map_option c_invalid (cursors b4 c), map_option c_pos (cursors b4 c),
                        case find_bp b4 5 of Inr (e5, v, b5) \<Rightarrow> Some (e5, v) | Inl f \<Rightarrow> None)
                       = (OK, Inr (OK, Some (5, 7)), OK, Inr (NOTFOUND, None), OK, Inr (NOTFOUND, None),
                          Some 1, Some 1, Some (OK, Some 9))
                   | Inl f \<Rightarrow> False)
              | Inl f \<Rightarrow> False)
         | (None, b2) \<Rightarrow> False)
    | Inl f \<Rightarrow> False)"
  by (simp add: tree0_def run_small)

section \<open>Cursors of a destroyed tree\<close>

text \<open>
  Claim C8: after the tree of a cursor was destroyed, get, update and next return
  not-found, get-tree returns null and free-cursor only releases the cursor.
  \<^verbatim>\<open>free_bplus_tree\<close> clears the back-reference, which only \<^verbatim>\<open>get_tree\<close> and
  \<^verbatim>\<open>free_cursor\<close> read. On a tree with the record (5, 7) and a cursor on it: after
  the destroy, get, update and next read the key count through the pointer to the
  unmapped leaf, and free-cursor decrements the cursor count through the null
  back-reference.
\<close>

theorem cursor_after_destroy_faults:
  "(case insert_bp tree0 5 7 of
      Inr (e1, b1) \<Rightarrow>
        (case first_record b1 of
           (Some c, b2) \<Rightarrow>
             (case free_bplus_tree b2 of
                Inr b3 \<Rightarrow>
                  (get_record b2 c, get_tree b3 c, get_record b3 c, update_record b3 c 9,
                   next_record b3 c, free_cursor b3 c)
                  = (Inr (OK, Some (5, 7)), Inr False, Inl BadPointer, Inl BadPointer,
                     Inl BadPointer, Inl NullDeref)
              | Inl f \<Rightarrow> False)
         | (None, b2) \<Rightarrow> False)
    | Inl f \<Rightarrow> False)"
  by (simp add: tree0_def run_small)

section \<open>Next at the end of the leaf chain\<close>

text \<open>
  Claim C10: \<^verbatim>\<open>next_record\<close> is defined only while the cursor's leaf pointer is
  non-null. For a live cursor (and no page mapped at address 0): with a null leaf
  pointer it reads the key count through the null pointer; it returns a result exactly
  when the leaf pointer refers to a mapped block; and when it returns not-found it has
  set the leaf pointer to null, so that the next call reads through the null pointer.
\<close>

theorem next_record_needs_leaf:
  "\<not> mapped b 0 \<Longrightarrow> cursors b c = Some bc \<Longrightarrow>
     (c_leaf bc = 0 \<longrightarrow> next_record b c = Inl NullDeref) \<and>
     ((\<exists>r. next_record b c = Inr r) \<longleftrightarrow> mapped b (c_leaf bc)) \<and>
     (\<forall>b'. next_record b c = Inr (NOTFOUND, b') \<longrightarrow>
        map_option c_leaf (cursors b' c) = Some 0 \<and> next_record b' c = Inl NullDeref)"
  by (auto simp: next_record_def Let_def fault_of_def split: option.splits if_splits)

theorem next_record_needs_leaf_witness:
  "\<not> mapped cursor_tree 0 \<and> map_option c_leaf (cursors cursor_tree 0) = Some 1 \<and> mapped cursor_tree 1 \<and>
   (case next_record cursor_tree 0 of
      Inr (e, b') \<Rightarrow> e = NOTFOUND \<and> map_option c_leaf (cursors b' 0) = Some 0 \<and>
                     next_record b' 0 = Inl NullDeref
    | Inl f \<Rightarrow> False)"
proof -
  have c: "cursors cursor_tree 0 = Some \<lparr>c_tree = True, c_leaf = 1, c_pos = 0, c_invalid = 0\<rparr>"
    and m: "\<not> mapped cursor_tree 0" "mapped cursor_tree 1"
    by (simp_all add: cursor_tree_def tree0_def run_small)
  obtain b' where n: "next_record cursor_tree 0 = Inr (NOTFOUND, b')"
    by (simp add: cursor_tree_def tree0_def run_small)
  from next_record_needs_leaf [OF m(1) c] n
  have "map_option c_leaf (cursors b' 0) = Some 0 \<and> next_record b' 0 = Inl NullDeref"
    by blast
  with c m n show ?thesis by simp
qed

end
